theory Spec2Isabelle
  imports Complex_Main "HOL-Library.Word" "HOL-Library.Multiset"
begin

unbundle bit_operations_syntax

section \<open>Python values used by the detector\<close>

text \<open>
  A Python \<open>str\<close> is a sequence of Unicode code points; \<open>ord\<close> reads one as a number.
  A string is therefore a list of code points, and \<open>lit\<close> turns a literal of the program
  text into one.
\<close>

type_synonym pychar = nat
type_synonym pystr = "pychar list"

definition lit :: "string \<Rightarrow> pystr" where
  "lit s = map of_char s"

datatype error =
    IndexError
  | KeyError
  | ZeroDivisionError
  | ValueError string
  | RuntimeError string

text \<open>
  Subscription \<open>xs[i]\<close> of a sequence: positions \<open>0 .. len - 1\<close> read from the front,
  positions \<open>-len .. -1\<close> read from the back, every other position raises.
\<close>

definition py_getitem :: "'a list \<Rightarrow> int \<Rightarrow> error + 'a" where
  "py_getitem xs i =
     (if 0 \<le> i \<and> i < int (length xs) then Inr (xs ! nat i)
      else if i < 0 \<and> - int (length xs) \<le> i then Inr (xs ! nat (int (length xs) + i))
      else Inl IndexError)"

section \<open>Trigram hasher\<close>

text \<open>
  \<^verbatim>\<open>
  def hash_trigram(text, start, dim):
      h = 2166136261
      for i in range(3):
          h ^= ord(text[start + i])
          h = (h * 16777619) & 0xFFFFFFFF
      return h % dim
  \<close>
  The loop over \<open>range(3)\<close> is \<open>hash_loop\<close> over the offsets still to visit.
\<close>

fun hash_loop :: "pystr \<Rightarrow> int \<Rightarrow> int list \<Rightarrow> int \<Rightarrow> error + int" where
  "hash_loop text start [] h = Inr h"
| "hash_loop text start (i # rest) h =
     (case py_getitem text (start + i) of
        Inl e \<Rightarrow> Inl e
      | Inr c \<Rightarrow> hash_loop text start rest (((h XOR int c) * 16777619) AND 0xFFFFFFFF))"

definition hash_trigram :: "pystr \<Rightarrow> int \<Rightarrow> int \<Rightarrow> error + int" where
  "hash_trigram text start d =
     (case hash_loop text start [0, 1, 2] 2166136261 of
        Inl e \<Rightarrow> Inl e
      | Inr h \<Rightarrow> if d = 0 then Inl ZeroDivisionError else Inr (h mod d))"

text \<open>
  The 32-bit FNV-1a hash as the specification words it: on 32-bit machine words, from the
  offset basis, each character folded in by XOR and then multiplication with the FNV prime.
\<close>

definition fnv1a_step :: "32 word \<Rightarrow> pychar \<Rightarrow> 32 word" where
  "fnv1a_step h c = (h XOR word_of_nat c) * 16777619"

definition fnv1a32 :: "pychar list \<Rightarrow> 32 word" where
  "fnv1a32 cs = foldl fnv1a_step 2166136261 cs"

section \<open>Floating-point values\<close>

text \<open>
  A Python \<open>float\<close> is an IEEE-754 double: a finite number, an infinity or NaN. The finite
  doubles are a subset of the reals, so a finite value carries the real number it denotes
  (the two zeros are one value here: no operation of the program tells them apart).
  Comparison and negation are exact and are defined on the values. Every comparison with
  NaN is false.
\<close>

datatype fl = Fin real | PInf | NInf | NaN

fun flt :: "fl \<Rightarrow> fl \<Rightarrow> bool" where
  "flt (Fin x) (Fin y) = (x < y)"
| "flt (Fin x) PInf = True"
| "flt NInf (Fin y) = True"
| "flt NInf PInf = True"
| "flt _ _ = False"

definition fle :: "fl \<Rightarrow> fl \<Rightarrow> bool" where
  "fle a b = (flt a b \<or> (a = b \<and> a \<noteq> NaN))"

fun fneg :: "fl \<Rightarrow> fl" where
  "fneg (Fin x) = Fin (- x)"
| "fneg PInf = NInf"
| "fneg NInf = PInf"
| "fneg NaN = NaN"

definition isnan :: "fl \<Rightarrow> bool" where
  "isnan x = (x = NaN)"

text \<open>
  What the interpreter and its libraries supply: \<open>str.lower\<close>, which rests on the Unicode
  case tables, and the rounding arithmetic of doubles (\<open>+\<close>, \<open>*\<close>, \<open>/\<close>, \<open>math.exp\<close>, the
  conversion of an \<open>int\<close>). The program is modelled over any such platform \<open>P\<close>. The
  arithmetic is total: the program divides only by \<open>1.0 + z\<close> and by positive counts and
  calls \<open>math.exp\<close> only on arguments that are not positive, where Python raises neither
  \<open>ZeroDivisionError\<close> nor \<open>OverflowError\<close>.
\<close>

record platform =
  str_lower :: "pystr \<Rightarrow> pystr"
  fadd :: "fl \<Rightarrow> fl \<Rightarrow> fl"
  fmul :: "fl \<Rightarrow> fl \<Rightarrow> fl"
  fdiv :: "fl \<Rightarrow> fl \<Rightarrow> fl"
  fexp :: "fl \<Rightarrow> fl"
  float_of_int :: "int \<Rightarrow> fl"

section \<open>Text normalizer\<close>

text \<open>
  \<^verbatim>\<open>
  def normalize_text(value):
      return re.sub(r"[ \t\f\v]+", " ", str(value or "").replace("\u00a0", " ")).strip().lower()
  \<close>
  \<open>str_replace_nbsp\<close> replaces every no-break space (U+00A0) by a space; \<open>re_sub_hspace\<close> is the substitution of
  every maximal match of \<open>[ \t\f\v]+\<close> by one space; \<open>str_strip\<close> is \<open>.strip()\<close>, which removes
  the characters of \<open>str.isspace\<close> from both ends.
\<close>

definition is_hspace :: "pychar \<Rightarrow> bool" where
  "is_hspace c = (c = 0x20 \<or> c = 0x09 \<or> c = 0x0C \<or> c = 0x0B)"

definition py_isspace :: "pychar \<Rightarrow> bool" where
  "py_isspace c =
     ((0x09 \<le> c \<and> c \<le> 0x0D) \<or> (0x1C \<le> c \<and> c \<le> 0x20) \<or> c = 0x85 \<or> c = 0xA0
      \<or> c = 0x1680 \<or> (0x2000 \<le> c \<and> c \<le> 0x200A) \<or> c = 0x2028 \<or> c = 0x2029
      \<or> c = 0x202F \<or> c = 0x205F \<or> c = 0x3000)"

definition str_replace_nbsp :: "pystr \<Rightarrow> pystr" where
  "str_replace_nbsp s = map (\<lambda>c. if c = 0xA0 then 0x20 else c) s"

function re_sub_hspace :: "pystr \<Rightarrow> pystr" where
  "re_sub_hspace [] = []"
| "re_sub_hspace (c # s) =
     (if is_hspace c then 0x20 # re_sub_hspace (dropWhile is_hspace s)
      else c # re_sub_hspace s)"
  by pat_completeness auto
termination
  by (relation "measure length") (auto simp: length_dropWhile_le less_Suc_eq_le)

definition str_strip :: "pystr \<Rightarrow> pystr" where
  "str_strip s = rev (dropWhile py_isspace (rev (dropWhile py_isspace s)))"

definition str_or_empty :: "pystr option \<Rightarrow> pystr" where
  "str_or_empty v = (case v of None \<Rightarrow> [] | Some s \<Rightarrow> s)"

definition normalize_text :: "platform \<Rightarrow> pystr option \<Rightarrow> pystr" where
  "normalize_text P v =
     str_lower P (str_strip (re_sub_hspace (str_replace_nbsp (str_or_empty v))))"

text \<open>
  The normalizer as the specification words it, for a class \<open>W\<close> of characters that count as
  whitespace inside the text: every maximal run of \<open>W\<close> becomes one ASCII space, the ends
  are trimmed, the result is lowercased.
\<close>

fun collapse_runs :: "(pychar \<Rightarrow> bool) \<Rightarrow> pystr \<Rightarrow> pystr" where
  "collapse_runs W [] = []"
| "collapse_runs W [c] = [if W c then 0x20 else c]"
| "collapse_runs W (c # d # s) =
     (if W c then (if W d then collapse_runs W (d # s) else 0x20 # collapse_runs W (d # s))
      else c # collapse_runs W (d # s))"

definition spec_normalize :: "platform \<Rightarrow> (pychar \<Rightarrow> bool) \<Rightarrow> pystr option \<Rightarrow> pystr" where
  "spec_normalize P W v = str_lower P (str_strip (collapse_runs W (str_or_empty v)))"

text \<open>
  The strings that \<open>collapse_runs W\<close> leaves as they are: every character of \<open>W\<close> in them is
  a space and is not followed by a character of \<open>W\<close>.
\<close>

fun run_free :: "(pychar \<Rightarrow> bool) \<Rightarrow> pystr \<Rightarrow> bool" where
  "run_free W [] = True"
| "run_free W (c # s) =
     ((if W c then c = 0x20 \<and> (s = [] \<or> \<not> W (hd s)) else True) \<and> run_free W s)"

text \<open>The strings that \<open>str_strip\<close> leaves as they are.\<close>

definition ends_clean :: "pystr \<Rightarrow> bool" where
  "ends_clean s = (s = [] \<or> (\<not> py_isspace (hd s) \<and> \<not> py_isspace (last s)))"

definition hspace_or_nbsp :: "pychar \<Rightarrow> bool" where
  "hspace_or_nbsp c = (is_hspace c \<or> c = 0xA0)"

text \<open>
  The facts about \<open>str.lower\<close> that idempotence of the normalizer rests on: lowercasing is
  idempotent, maps only the empty string to the empty string, acts on the stretches between
  whitespace characters one by one and leaves the whitespace characters in place, and puts
  no whitespace into a stretch that had none.
\<close>

definition lower_respects_space :: "(pystr \<Rightarrow> pystr) \<Rightarrow> bool" where
  "lower_respects_space L =
     ((\<forall>s. L (L s) = L s)
      \<and> (\<forall>s. L s = [] \<longleftrightarrow> s = [])
      \<and> (\<forall>a w b. py_isspace w \<longrightarrow> L (a @ w # b) = L a @ w # L b)
      \<and> (\<forall>s. (\<forall>c \<in> set s. \<not> py_isspace c) \<longrightarrow> (\<forall>c \<in> set (L s). \<not> py_isspace c)))"

text \<open>
  The reference lowercasing of the examples: \<open>str.lower\<close> on strings whose cased characters
  are all ASCII letters.
\<close>

definition ascii_lower :: "pystr \<Rightarrow> pystr" where
  "ascii_lower s = map (\<lambda>c. if 0x41 \<le> c \<and> c \<le> 0x5A then c + 0x20 else c) s"

section \<open>Three-way classifier\<close>

text \<open>
  \<^verbatim>\<open>
  def predict_judge(score, human_threshold, ai_threshold):
      if score < human_threshold:
          return "Human"
      if score < ai_threshold:
          return "Unknown"
      return "AI"
  \<close>
\<close>

definition predict_judge :: "fl \<Rightarrow> fl \<Rightarrow> fl \<Rightarrow> string" where
  "predict_judge score human_threshold ai_threshold =
     (if flt score human_threshold then ''Human''
      else if flt score ai_threshold then ''Unknown''
      else ''AI'')"

text \<open>The order of the three classes that the monotonicity property speaks of.\<close>

definition judge_rank :: "string \<Rightarrow> nat" where
  "judge_rank j = (if j = ''Human'' then 0 else if j = ''Unknown'' then 1 else 2)"

section \<open>The reference platform\<close>

text \<open>
  The platform of the concrete examples: ASCII lowercasing and IEEE-754 double arithmetic
  with rounding to nearest, ties to even. \<open>rnd\<close> rounds a real number to a double: with
  \<open>e\<close> the exponent of \<open>x\<close> (at least that of the smallest normal number), the doubles near
  \<open>x\<close> are the multiples of \<open>2 ^ (e - 52)\<close>; a result of magnitude \<open>2 ^ 1024\<close> or more
  overflows to an infinity. \<open>math.exp\<close> is taken as correctly rounded. A division by zero,
  which the program never performs, has the value NaN here.
\<close>

definition round_even :: "real \<Rightarrow> int" where
  "round_even y =
     (let f = \<lfloor>y\<rfloor>; r = y - of_int f
      in if r < 1 / 2 then f else if 1 / 2 < r then f + 1 else if even f then f else f + 1)"

definition rnd :: "real \<Rightarrow> fl" where
  "rnd x =
     (if x = 0 then Fin 0
      else let e = max \<lfloor>log 2 \<bar>x\<bar>\<rfloor> (- 1022) - 52;
               u = 2 powr of_int e;
               r = of_int (round_even (x / u)) * u
           in if 2 ^ 1024 \<le> \<bar>r\<bar> then (if 0 < x then PInf else NInf) else Fin r)"

fun is_neg :: "fl \<Rightarrow> bool" where
  "is_neg (Fin x) = (x < 0)"
| "is_neg NInf = True"
| "is_neg _ = False"

fun ieee_add :: "fl \<Rightarrow> fl \<Rightarrow> fl" where
  "ieee_add (Fin a) (Fin b) = rnd (a + b)"
| "ieee_add NaN _ = NaN"
| "ieee_add _ NaN = NaN"
| "ieee_add PInf NInf = NaN"
| "ieee_add NInf PInf = NaN"
| "ieee_add PInf _ = PInf"
| "ieee_add _ PInf = PInf"
| "ieee_add NInf _ = NInf"
| "ieee_add _ NInf = NInf"

fun ieee_mul :: "fl \<Rightarrow> fl \<Rightarrow> fl" where
  "ieee_mul (Fin a) (Fin b) = rnd (a * b)"
| "ieee_mul NaN _ = NaN"
| "ieee_mul _ NaN = NaN"
| "ieee_mul a b =
     (if a = Fin 0 \<or> b = Fin 0 then NaN else if is_neg a = is_neg b then PInf else NInf)"

fun ieee_div :: "fl \<Rightarrow> fl \<Rightarrow> fl" where
  "ieee_div (Fin a) (Fin b) = (if b = 0 then NaN else rnd (a / b))"
| "ieee_div NaN _ = NaN"
| "ieee_div _ NaN = NaN"
| "ieee_div (Fin a) _ = Fin 0"
| "ieee_div a (Fin b) =
     (if b = 0 then NaN else if is_neg a = (b < 0) then PInf else NInf)"
| "ieee_div _ _ = NaN"

fun ieee_exp :: "fl \<Rightarrow> fl" where
  "ieee_exp (Fin x) = rnd (exp x)"
| "ieee_exp PInf = PInf"
| "ieee_exp NInf = Fin 0"
| "ieee_exp NaN = NaN"

definition ieee_of_int :: "int \<Rightarrow> fl" where
  "ieee_of_int n = rnd (of_int n)"

definition ref_platform :: platform where
  "ref_platform =
     \<lparr>str_lower = ascii_lower, fadd = ieee_add, fmul = ieee_mul, fdiv = ieee_div,
      fexp = ieee_exp, float_of_int = ieee_of_int\<rparr>"

text \<open>
  The doubles that the literals \<open>0.45\<close>, \<open>0.55\<close> and \<open>0.03\<close> of the program denote.
\<close>

definition DEFAULT_HUMAN_THRESHOLD :: fl where
  "DEFAULT_HUMAN_THRESHOLD = Fin (8106479329266893 / 2 ^ 54)"

definition DEFAULT_AI_THRESHOLD :: fl where
  "DEFAULT_AI_THRESHOLD = Fin (2476979795053773 / 2 ^ 52)"

definition JP_RATIO :: fl where
  "JP_RATIO = Fin (1080863910568919 / 2 ^ 55)"

section \<open>Scoring model\<close>

text \<open>
  \<^verbatim>\<open>
  def sigmoid(x):
      if x >= 0:
          z = math.exp(-x)
          return 1.0 / (1.0 + z)
      z = math.exp(x)
      return z / (1.0 + z)
  \<close>
\<close>

definition sigmoid :: "platform \<Rightarrow> fl \<Rightarrow> fl" where
  "sigmoid P x =
     (if fle (Fin 0) x then fdiv P (Fin 1) (fadd P (Fin 1) (fexp P (fneg x)))
      else let z = fexp P x in fdiv P z (fadd P (Fin 1) z))"

text \<open>
  A loaded model is the dictionary that \<open>load_model\<close> builds: the common entries and,
  by model family, either \<open>prior_logit\<close> and \<open>delta\<close> or \<open>bias\<close> and \<open>weights\<close>. Reading an
  entry of the other family is a \<open>KeyError\<close>.
\<close>

datatype params = NaiveBayes fl "fl list" | Logistic fl "fl list"

record thresholds =
  human_max :: "fl option"
  ai_min :: "fl option"

record model =
  model_name :: pystr
  model_type :: pystr
  model_dim :: int
  model_max_chars :: int
  model_thresholds :: thresholds
  model_params :: params

definition type_or_default :: "pystr \<Rightarrow> pystr" where
  "type_or_default t = (if t = [] then lit ''naive_bayes_hash3'' else t)"

text \<open>
  The loop of the additive model, over the window offsets still to visit:
  \<^verbatim>\<open>
  for i in range(limit - 2):
      idx = hash_trigram(normalized, i, dim)
      logit += float(delta[idx])
  \<close>
\<close>

fun nb_loop :: "platform \<Rightarrow> pystr \<Rightarrow> int \<Rightarrow> fl list \<Rightarrow> int list \<Rightarrow> fl \<Rightarrow> error + fl" where
  "nb_loop P normalized d delta [] logit = Inr logit"
| "nb_loop P normalized d delta (i # rest) logit =
     (case hash_trigram normalized i d of
        Inl e \<Rightarrow> Inl e
      | Inr idx \<Rightarrow>
          (case py_getitem delta idx of
             Inl e \<Rightarrow> Inl e
           | Inr v \<Rightarrow> nb_loop P normalized d delta rest (fadd P logit v)))"

text \<open>
  The bucket counts of the logistic model are a dictionary, which keeps its keys in the
  order of their first insertion: an association list. \<open>dict_bump\<close> is
  \<open>bucket_counts[idx] = bucket_counts.get(idx, 0) + 1\<close>.
\<close>

fun dict_bump :: "(int \<times> int) list \<Rightarrow> int \<Rightarrow> (int \<times> int) list" where
  "dict_bump [] k = [(k, 1)]"
| "dict_bump ((k', n) # kvs) k =
     (if k' = k then (k', n + 1) # kvs else (k', n) # dict_bump kvs k)"

fun count_loop :: "pystr \<Rightarrow> int \<Rightarrow> int list \<Rightarrow> (int \<times> int) list \<Rightarrow> error + (int \<times> int) list" where
  "count_loop normalized d [] bucket_counts = Inr bucket_counts"
| "count_loop normalized d (i # rest) bucket_counts =
     (case hash_trigram normalized i d of
        Inl e \<Rightarrow> Inl e
      | Inr idx \<Rightarrow> count_loop normalized d rest (dict_bump bucket_counts idx))"

fun logistic_loop :: "platform \<Rightarrow> fl list \<Rightarrow> int \<Rightarrow> (int \<times> int) list \<Rightarrow> fl \<Rightarrow> error + fl" where
  "logistic_loop P weights trigram_count [] logit = Inr logit"
| "logistic_loop P weights trigram_count ((idx, n) # rest) logit =
     (case py_getitem weights idx of
        Inl e \<Rightarrow> Inl e
      | Inr w \<Rightarrow>
          logistic_loop P weights trigram_count rest
            (fadd P logit
               (fmul P w (fdiv P (float_of_int P n) (float_of_int P trigram_count)))))"

text \<open>
  \<^verbatim>\<open>
  def compute_score(text, model):
      dim = max(1, int(model["dim"]))
      max_chars = max(200, int(model["max_chars"]))
      model_type = str(model.get("type") or "naive_bayes_hash3")
      normalized = normalize_text(text)
      if len(normalized) < 3:
          return 0.5
      limit = min(len(normalized), max_chars)
      if model_type == "logistic_hash3":
          weights = model["weights"]
          bias = float(model["bias"])
          trigram_count = max(1, limit - 2)
          bucket_counts = {}
          for i in range(limit - 2): ...
          logit = bias
          for idx, count in bucket_counts.items():
              logit += float(weights[idx]) * (count / trigram_count)
          return sigmoid(logit)
      delta = model["delta"]
      prior = float(model["prior_logit"])
      logit = prior
      for i in range(limit - 2): ...
      return sigmoid(logit)
  \<close>
\<close>

definition window_starts :: "int \<Rightarrow> int list" where
  "window_starts limit = map int [0 ..< nat (limit - 2)]"

definition compute_score :: "platform \<Rightarrow> pystr \<Rightarrow> model \<Rightarrow> error + fl" where
  "compute_score P text m =
     (let d = max 1 (model_dim m);
          max_chars = max 200 (model_max_chars m);
          mtype = type_or_default (model_type m);
          normalized = normalize_text P (Some text)
      in if length normalized < 3 then Inr (Fin (1 / 2))
         else
           let limit = min (int (length normalized)) max_chars
           in if mtype = lit ''logistic_hash3'' then
                (case model_params m of
                   NaiveBayes prior delta \<Rightarrow> Inl KeyError
                 | Logistic bias weights \<Rightarrow>
                     (let trigram_count = max 1 (limit - 2)
                      in case count_loop normalized d (window_starts limit) [] of
                           Inl e \<Rightarrow> Inl e
                         | Inr bucket_counts \<Rightarrow>
                             (case logistic_loop P weights trigram_count bucket_counts bias of
                                Inl e \<Rightarrow> Inl e
                              | Inr logit \<Rightarrow> Inr (sigmoid P logit))))
              else
                (case model_params m of
                   Logistic bias weights \<Rightarrow> Inl KeyError
                 | NaiveBayes prior delta \<Rightarrow>
                     (case nb_loop P normalized d delta (window_starts limit) prior of
                        Inl e \<Rightarrow> Inl e
                      | Inr logit \<Rightarrow> Inr (sigmoid P logit))))"

text \<open>
  The score that claim C5 words: the neutral score for a normalized text of fewer than
  three characters, else the sigmoid of the prior plus, added in the order of the windows,
  the \<open>delta\<close> of the bucket of every window that starts in \<open>[0, min(len, bound) - 2)\<close>.
\<close>

definition bucket_of :: "pystr \<Rightarrow> int \<Rightarrow> nat \<Rightarrow> nat" where
  "bucket_of normalized d i =
     nat (uint (fnv1a32 [normalized ! i, normalized ! (i + 1), normalized ! (i + 2)]) mod d)"

definition spec_nb_score :: "platform \<Rightarrow> nat \<Rightarrow> int \<Rightarrow> fl \<Rightarrow> fl list \<Rightarrow> pystr \<Rightarrow> fl" where
  "spec_nb_score P bound d prior delta normalized =
     (if length normalized < 3 then Fin (1 / 2)
      else sigmoid P
        (foldl (fadd P) prior
           (map (\<lambda>i. delta ! bucket_of normalized d i)
              [0 ..< min (length normalized) bound - 2])))"

section \<open>Language router\<close>

text \<open>
  \<^verbatim>\<open>
  JP_CHAR_RE = re.compile(r"[\u3040-\u30ff\u4e00-\u9fff]")
  def is_likely_japanese_text(text):
      sample = str(text or "")[:2400]
      if not sample:
          return False
      jp_count = len(JP_CHAR_RE.findall(sample))
      if jp_count >= 40:
          return True
      return jp_count >= 8 and (jp_count / max(1, len(sample))) >= 0.03
  \<close>
\<close>

definition JP_CHAR :: "pychar \<Rightarrow> bool" where
  "JP_CHAR c = ((0x3040 \<le> c \<and> c \<le> 0x30FF) \<or> (0x4E00 \<le> c \<and> c \<le> 0x9FFF))"

definition is_likely_japanese_text :: "platform \<Rightarrow> pystr \<Rightarrow> bool" where
  "is_likely_japanese_text P text =
     (let sample = take 2400 text
      in if sample = [] then False
         else
           let jp_count = int (length (filter JP_CHAR sample))
           in if 40 \<le> jp_count then True
              else 8 \<le> jp_count
                \<and> fle JP_RATIO
                     (fdiv P (float_of_int P jp_count)
                        (float_of_int P (max 1 (int (length sample))))))"

section \<open>Evaluation engine\<close>

text \<open>
  The dictionary that \<open>evaluate_valid_rows\<close> returns: nineteen integer counters and the sum
  of the scores.
\<close>

record partial_result =
  p_total :: int
  p_strict_correct :: int
  p_decided_rows :: int
  p_decided_correct :: int
  p_score_sum :: fl
  p_gt_ai :: int
  p_gt_human :: int
  p_pred_ai :: int
  p_pred_human :: int
  p_pred_unknown :: int
  p_ai_ai :: int
  p_ai_human :: int
  p_ai_unknown :: int
  p_human_ai :: int
  p_human_human :: int
  p_human_unknown :: int
  p_jp_rows :: int
  p_jp_strict_correct :: int
  p_non_jp_rows :: int
  p_non_jp_strict_correct :: int

definition zero_result :: partial_result where
  "zero_result =
     \<lparr>p_total = 0, p_strict_correct = 0, p_decided_rows = 0, p_decided_correct = 0,
      p_score_sum = Fin 0, p_gt_ai = 0, p_gt_human = 0, p_pred_ai = 0, p_pred_human = 0,
      p_pred_unknown = 0, p_ai_ai = 0, p_ai_human = 0, p_ai_unknown = 0, p_human_ai = 0,
      p_human_human = 0, p_human_unknown = 0, p_jp_rows = 0, p_jp_strict_correct = 0,
      p_non_jp_rows = 0, p_non_jp_strict_correct = 0\<rparr>"

text \<open>The arguments of \<open>evaluate_valid_rows\<close> after the rows, and the two globals of a worker.\<close>

record eval_args =
  human_threshold :: fl
  ai_threshold :: fl
  arg_model :: "model option"
  arg_model_ja :: "model option"
  human_threshold_ja :: "fl option"
  ai_threshold_ja :: "fl option"

record worker_globals =
  WORKER_MODEL :: "model option"
  WORKER_MODEL_JA :: "model option"

definition b2i :: "bool \<Rightarrow> int" where
  "b2i b = (if b then 1 else 0)"

text \<open>
  One turn of the loop \<open>for gt, text in rows\<close>. \<open>count_row\<close> is the second half of the
  body, the counters after a row with ground truth \<open>gt\<close>, prediction \<open>pred\<close> and score
  \<open>score\<close>: a counter that the body increments under a condition grows by \<open>b2i\<close> of that
  condition, and an \<open>else\<close> branch is the negation of the tests before it. \<open>eval_row\<close> is
  the whole body: the model and thresholds of the row, its score and prediction, then the
  counters.
\<close>

definition count_row ::
  "platform \<Rightarrow> partial_result \<Rightarrow> bool \<Rightarrow> string \<Rightarrow> string \<Rightarrow> fl \<Rightarrow> partial_result" where
  "count_row P acc is_japanese gt pred score =
     \<lparr>p_total = p_total acc + 1,
      p_strict_correct = p_strict_correct acc + b2i (pred = gt),
      p_decided_rows = p_decided_rows acc + b2i (pred \<noteq> ''Unknown''),
      p_decided_correct = p_decided_correct acc + b2i (pred \<noteq> ''Unknown'' \<and> pred = gt),
      p_score_sum = fadd P (p_score_sum acc) score,
      p_gt_ai = p_gt_ai acc + b2i (gt = ''AI''),
      p_gt_human = p_gt_human acc + b2i (gt \<noteq> ''AI''),
      p_pred_ai = p_pred_ai acc + b2i (pred = ''AI''),
      p_pred_human = p_pred_human acc + b2i (pred \<noteq> ''AI'' \<and> pred = ''Human''),
      p_pred_unknown = p_pred_unknown acc + b2i (pred \<noteq> ''AI'' \<and> pred \<noteq> ''Human''),
      p_ai_ai = p_ai_ai acc + b2i (gt = ''AI'' \<and> pred = ''AI''),
      p_ai_human = p_ai_human acc + b2i (gt = ''AI'' \<and> pred \<noteq> ''AI'' \<and> pred = ''Human''),
      p_ai_unknown =
        p_ai_unknown acc + b2i (gt = ''AI'' \<and> pred \<noteq> ''AI'' \<and> pred \<noteq> ''Human''),
      p_human_ai = p_human_ai acc + b2i (gt \<noteq> ''AI'' \<and> pred = ''AI''),
      p_human_human =
        p_human_human acc + b2i (gt \<noteq> ''AI'' \<and> pred \<noteq> ''AI'' \<and> pred = ''Human''),
      p_human_unknown =
        p_human_unknown acc + b2i (gt \<noteq> ''AI'' \<and> pred \<noteq> ''AI'' \<and> pred \<noteq> ''Human''),
      p_jp_rows = p_jp_rows acc + b2i is_japanese,
      p_jp_strict_correct = p_jp_strict_correct acc + b2i (is_japanese \<and> pred = gt),
      p_non_jp_rows = p_non_jp_rows acc + b2i (\<not> is_japanese),
      p_non_jp_strict_correct =
        p_non_jp_strict_correct acc + b2i (\<not> is_japanese \<and> pred = gt)\<rparr>"

definition eval_row ::
  "platform \<Rightarrow> eval_args \<Rightarrow> model \<Rightarrow> model option \<Rightarrow> partial_result \<Rightarrow> string \<times> pystr
     \<Rightarrow> error + partial_result" where
  "eval_row P a actual_model actual_model_ja acc row =
     (let gt = fst row; text = snd row;
          is_japanese = is_likely_japanese_text P text;
          routed = (case actual_model_ja of
                      None \<Rightarrow> (actual_model, human_threshold a, ai_threshold a)
                    | Some mja \<Rightarrow>
                        if is_japanese then
                          (mja,
                           (case human_threshold_ja a of None \<Rightarrow> human_threshold a | Some t \<Rightarrow> t),
                           (case ai_threshold_ja a of None \<Rightarrow> ai_threshold a | Some t \<Rightarrow> t))
                        else (actual_model, human_threshold a, ai_threshold a))
      in case compute_score P text (fst routed) of
           Inl e \<Rightarrow> Inl e
         | Inr score \<Rightarrow>
             Inr (count_row P acc is_japanese gt
                    (predict_judge score (fst (snd routed)) (snd (snd routed))) score))"

fun eval_rows ::
  "platform \<Rightarrow> eval_args \<Rightarrow> model \<Rightarrow> model option \<Rightarrow> (string \<times> pystr) list \<Rightarrow> partial_result
     \<Rightarrow> error + partial_result" where
  "eval_rows P a actual_model actual_model_ja [] acc = Inr acc"
| "eval_rows P a actual_model actual_model_ja (row # rows) acc =
     (case eval_row P a actual_model actual_model_ja acc row of
        Inl e \<Rightarrow> Inl e
      | Inr acc' \<Rightarrow> eval_rows P a actual_model actual_model_ja rows acc')"

text \<open>
  \<^verbatim>\<open>
  def evaluate_valid_rows(rows, human_threshold, ai_threshold, model=None, model_ja=None,
                          human_threshold_ja=None, ai_threshold_ja=None):
      actual_model = model if model is not None else WORKER_MODEL
      actual_model_ja = model_ja if model_ja is not None else WORKER_MODEL_JA
      if actual_model is None:
          raise RuntimeError("Model is not initialized")
      ...
  \<close>
\<close>

definition evaluate_valid_rows ::
  "platform \<Rightarrow> worker_globals \<Rightarrow> (string \<times> pystr) list \<Rightarrow> eval_args \<Rightarrow> error + partial_result" where
  "evaluate_valid_rows P G rows a =
     (let actual_model = (case arg_model a of Some m \<Rightarrow> Some m | None \<Rightarrow> WORKER_MODEL G);
          actual_model_ja = (case arg_model_ja a of Some m \<Rightarrow> Some m | None \<Rightarrow> WORKER_MODEL_JA G)
      in case actual_model of
           None \<Rightarrow> Inl (RuntimeError ''Model is not initialized'')
         | Some m \<Rightarrow> eval_rows P a m actual_model_ja rows zero_result)"

text \<open>
  A \<open>Counter\<close> reads a missing key as 0, and \<open>c[k] += n\<close> stores the sum under \<open>k\<close>.
\<close>

type_synonym 'k counter = "'k \<rightharpoonup> int"

definition counter_get :: "'k counter \<Rightarrow> 'k \<Rightarrow> int" where
  "counter_get c k = (case c k of None \<Rightarrow> 0 | Some n \<Rightarrow> n)"

definition counter_add :: "'k counter \<Rightarrow> 'k \<Rightarrow> int \<Rightarrow> 'k counter" where
  "counter_add c k n = c(k \<mapsto> counter_get c k + n)"

record EvalState =
  st_total :: int
  st_skipped :: int
  st_strict_correct :: int
  st_decided_rows :: int
  st_decided_correct :: int
  st_gt_counts :: "string counter"
  st_pred_counts :: "string counter"
  st_conf :: "(string \<times> string) counter"
  st_score_sum :: fl
  st_jp_rows :: int
  st_jp_strict_correct :: int
  st_non_jp_rows :: int
  st_non_jp_strict_correct :: int

definition init_state :: EvalState where
  "init_state =
     \<lparr>st_total = 0, st_skipped = 0, st_strict_correct = 0, st_decided_rows = 0,
      st_decided_correct = 0, st_gt_counts = Map.empty, st_pred_counts = Map.empty,
      st_conf = Map.empty, st_score_sum = Fin 0, st_jp_rows = 0, st_jp_strict_correct = 0,
      st_non_jp_rows = 0, st_non_jp_strict_correct = 0\<rparr>"

text \<open>
  \<open>merge_partial_result(state, part)\<close> adds every entry of \<open>part\<close> to its field of the
  state; the state after the call is the result.
\<close>

definition merge_partial_result :: "platform \<Rightarrow> EvalState \<Rightarrow> partial_result \<Rightarrow> EvalState" where
  "merge_partial_result P state part =
     \<lparr>st_total = st_total state + p_total part,
      st_skipped = st_skipped state,
      st_strict_correct = st_strict_correct state + p_strict_correct part,
      st_decided_rows = st_decided_rows state + p_decided_rows part,
      st_decided_correct = st_decided_correct state + p_decided_correct part,
      st_gt_counts =
        counter_add (counter_add (st_gt_counts state) ''AI'' (p_gt_ai part))
          ''Human'' (p_gt_human part),
      st_pred_counts =
        counter_add
          (counter_add (counter_add (st_pred_counts state) ''AI'' (p_pred_ai part))
             ''Human'' (p_pred_human part))
          ''Unknown'' (p_pred_unknown part),
      st_conf =
        counter_add
          (counter_add
             (counter_add
                (counter_add
                   (counter_add
                      (counter_add (st_conf state) (''AI'', ''AI'') (p_ai_ai part))
                      (''AI'', ''Human'') (p_ai_human part))
                   (''AI'', ''Unknown'') (p_ai_unknown part))
                (''Human'', ''AI'') (p_human_ai part))
             (''Human'', ''Human'') (p_human_human part))
          (''Human'', ''Unknown'') (p_human_unknown part),
      st_score_sum = fadd P (st_score_sum state) (p_score_sum part),
      st_jp_rows = st_jp_rows state + p_jp_rows part,
      st_jp_strict_correct = st_jp_strict_correct state + p_jp_strict_correct part,
      st_non_jp_rows = st_non_jp_rows state + p_non_jp_rows part,
      st_non_jp_strict_correct =
        st_non_jp_strict_correct state + p_non_jp_strict_correct part\<rparr>"

text \<open>
  A row of the dataset: the columns \<open>text\<close> and \<open>label\<close>, each a string or null.
  \<^verbatim>\<open>
  def select_valid_rows(rows, max_rows, accepted_rows):
      valid_rows = []; skipped = 0; stop = False
      for row in rows:
          gt_raw = str(row.get("label") or "").strip().lower()
          if gt_raw not in ("ai", "human"):
              skipped += 1
              continue
          gt = "AI" if gt_raw == "ai" else "Human"
          text = str(row.get("text") or "")
          if not normalize_text(text):
              skipped += 1
              continue
          valid_rows.append((gt, text))
          accepted_rows += 1
          if max_rows > 0 and accepted_rows >= max_rows:
              stop = True
              break
      return valid_rows, accepted_rows, skipped, stop
  \<close>
\<close>

record row =
  row_text :: "pystr option"
  row_label :: "pystr option"

fun select_loop ::
  "platform \<Rightarrow> int \<Rightarrow> row list \<Rightarrow> (string \<times> pystr) list \<Rightarrow> int \<Rightarrow> int
     \<Rightarrow> (string \<times> pystr) list \<times> int \<times> int \<times> bool" where
  "select_loop P max_rows [] valid_rows accepted_rows skipped =
     (valid_rows, accepted_rows, skipped, False)"
| "select_loop P max_rows (r # rest) valid_rows accepted_rows skipped =
     (let gt_raw = str_lower P (str_strip (str_or_empty (row_label r)))
      in if gt_raw \<noteq> lit ''ai'' \<and> gt_raw \<noteq> lit ''human'' then
           select_loop P max_rows rest valid_rows accepted_rows (skipped + 1)
         else
           let gt = (if gt_raw = lit ''ai'' then ''AI'' else ''Human'');
               text = str_or_empty (row_text r)
           in if normalize_text P (Some text) = [] then
                select_loop P max_rows rest valid_rows accepted_rows (skipped + 1)
              else if 0 < max_rows \<and> max_rows \<le> accepted_rows + 1 then
                (valid_rows @ [(gt, text)], accepted_rows + 1, skipped, True)
              else
                select_loop P max_rows rest (valid_rows @ [(gt, text)]) (accepted_rows + 1) skipped)"

definition select_valid_rows ::
  "platform \<Rightarrow> row list \<Rightarrow> int \<Rightarrow> int \<Rightarrow> (string \<times> pystr) list \<times> int \<times> int \<times> bool" where
  "select_valid_rows P rows max_rows accepted_rows =
     select_loop P max_rows rows [] accepted_rows 0"

text \<open>
  The single-worker branch of \<open>run_evaluation\<close>, over the batches still to read:
  \<^verbatim>\<open>
  for batch in pf.iter_batches(columns=["text", "label"], batch_size=2048):
      rows = batch.to_pylist()
      valid_rows, accepted_rows, skipped, should_stop = select_valid_rows(rows, max_rows, accepted_rows)
      state.skipped += skipped
      if valid_rows:
          part = evaluate_valid_rows(valid_rows, human_threshold=human_threshold, ...)
          merge_partial_result(state, part)
      if should_stop:
          break
  \<close>
  The controlling process never sets the worker globals.
\<close>

definition no_globals :: worker_globals where
  "no_globals = \<lparr>WORKER_MODEL = None, WORKER_MODEL_JA = None\<rparr>"

fun seq_loop ::
  "platform \<Rightarrow> eval_args \<Rightarrow> int \<Rightarrow> row list list \<Rightarrow> EvalState \<Rightarrow> int \<Rightarrow> error + EvalState" where
  "seq_loop P a max_rows [] state accepted_rows = Inr state"
| "seq_loop P a max_rows (rows # batches) state accepted_rows =
     (case select_valid_rows P rows max_rows accepted_rows of
        (valid_rows, accepted_rows', skipped, should_stop) \<Rightarrow>
          (let state1 = state\<lparr>st_skipped := st_skipped state + skipped\<rparr>
           in if valid_rows \<noteq> [] then
                (case evaluate_valid_rows P no_globals valid_rows a of
                   Inl e \<Rightarrow> Inl e
                 | Inr part \<Rightarrow>
                     (let state2 = merge_partial_result P state1 part
                      in if should_stop then Inr state2
                         else seq_loop P a max_rows batches state2 accepted_rows'))
              else if should_stop then Inr state1
              else seq_loop P a max_rows batches state1 accepted_rows'))"

text \<open>
  The worker-pool branch. A submitted task is its result, a \<open>PartialResult\<close> or the
  exception that \<open>fut.result()\<close> re-raises. Which tasks have completed at a \<open>wait\<close>, the
  order in which a set of futures is iterated and the order of \<open>as_completed\<close> are not
  determined by the program: a schedule supplies, for each such event, a list of choices.
  \<open>shuffle\<close> turns any list of choices into an order of the pending tasks, and every order
  arises from some choices. At a \<open>wait\<close> the first choice fixes how many tasks are done, at
  least one.
\<close>

type_synonym future = "error + partial_result"
type_synonym schedule = "nat list list"

definition remove_nth :: "nat \<Rightarrow> 'a list \<Rightarrow> 'a list" where
  "remove_nth i xs = take i xs @ drop (Suc i) xs"

function shuffle :: "nat list \<Rightarrow> 'a list \<Rightarrow> 'a list" where
  "shuffle cs [] = []"
| "shuffle [] (x # xs) = x # xs"
| "shuffle (c # cs) (x # xs) =
     (x # xs) ! (c mod length (x # xs)) # shuffle cs (remove_nth (c mod length (x # xs)) (x # xs))"
  by pat_completeness auto
termination
  by (relation "measure (\<lambda>(cs, xs). length xs)") (auto simp: remove_nth_def)

definition next_choices :: "schedule \<Rightarrow> nat list" where
  "next_choices sched = (case sched of [] \<Rightarrow> [] | cs # _ \<Rightarrow> cs)"

definition wait_first_completed :: "nat list \<Rightarrow> future list \<Rightarrow> future list \<times> future list" where
  "wait_first_completed cs pending =
     (let order = shuffle (tl cs) pending;
          k = Suc ((case cs of [] \<Rightarrow> 0 | c # _ \<Rightarrow> c) mod length pending)
      in (take k order, drop k order))"

fun merge_results :: "platform \<Rightarrow> EvalState \<Rightarrow> future list \<Rightarrow> error + EvalState" where
  "merge_results P state [] = Inr state"
| "merge_results P state (fut # futs) =
     (case fut of
        Inl e \<Rightarrow> Inl e
      | Inr part \<Rightarrow> merge_results P (merge_partial_result P state part) futs)"

text \<open>
  \<^verbatim>\<open>
  for batch in pf.iter_batches(...):
      rows = batch.to_pylist()
      valid_rows, accepted_rows, skipped, should_stop = select_valid_rows(rows, max_rows, accepted_rows)
      state.skipped += skipped
      if valid_rows:
          pending.append(executor.submit(evaluate_valid_rows, valid_rows, human_threshold,
              ai_threshold, None, None, human_threshold_ja, ai_threshold_ja))
      if len(pending) >= max_inflight:
          done, not_done = concurrent.futures.wait(pending, return_when=FIRST_COMPLETED)
          pending = list(not_done)
          for fut in done:
              merge_partial_result(state, fut.result())
      if should_stop:
          break
  for fut in concurrent.futures.as_completed(pending):
      merge_partial_result(state, fut.result())
  \<close>
\<close>

fun par_loop ::
  "platform \<Rightarrow> eval_args \<Rightarrow> worker_globals \<Rightarrow> int \<Rightarrow> nat \<Rightarrow> row list list \<Rightarrow> schedule
     \<Rightarrow> EvalState \<Rightarrow> int \<Rightarrow> future list \<Rightarrow> error + EvalState" where
  "par_loop P a G max_rows max_inflight [] sched state accepted_rows pending =
     merge_results P state (shuffle (next_choices sched) pending)"
| "par_loop P a G max_rows max_inflight (rows # batches) sched state accepted_rows pending =
     (case select_valid_rows P rows max_rows accepted_rows of
        (valid_rows, accepted_rows', skipped, should_stop) \<Rightarrow>
          (let state1 = state\<lparr>st_skipped := st_skipped state + skipped\<rparr>;
               pending1 = (if valid_rows \<noteq> [] then pending @ [evaluate_valid_rows P G valid_rows a]
                           else pending)
           in if max_inflight \<le> length pending1 then
                (case wait_first_completed (next_choices sched) pending1 of
                   (done, not_done) \<Rightarrow>
                     (case merge_results P state1 done of
                        Inl e \<Rightarrow> Inl e
                      | Inr state2 \<Rightarrow>
                          if should_stop then
                            merge_results P state2 (shuffle (next_choices (tl sched)) not_done)
                          else par_loop P a G max_rows max_inflight batches (tl sched) state2
                                 accepted_rows' not_done))
              else if should_stop then
                merge_results P state1 (shuffle (next_choices sched) pending1)
              else par_loop P a G max_rows max_inflight batches sched state1 accepted_rows'
                     pending1))"

text \<open>
  \<open>run_evaluation\<close> up to the final state, from which the summary reads its counts
  (\<open>processed_rows\<close> is \<open>state.total\<close>, \<open>skipped_rows\<close> is \<open>state.skipped\<close>). The dataset is
  the list of its batches. \<open>single_args\<close> are the arguments of the call in the controlling
  process, \<open>pool_args\<close> those of a submitted task; the initializer of the pool sets the
  globals of every worker to the two models, \<open>pool_globals\<close>.
\<close>

definition single_args :: "model \<Rightarrow> model option \<Rightarrow> fl \<Rightarrow> fl \<Rightarrow> fl \<Rightarrow> fl \<Rightarrow> eval_args" where
  "single_args m m_ja human_thr ai_thr human_thr_ja ai_thr_ja =
     \<lparr>human_threshold = human_thr, ai_threshold = ai_thr, arg_model = Some m,
      arg_model_ja = m_ja, human_threshold_ja = Some human_thr_ja,
      ai_threshold_ja = Some ai_thr_ja\<rparr>"

definition pool_args :: "fl \<Rightarrow> fl \<Rightarrow> fl \<Rightarrow> fl \<Rightarrow> eval_args" where
  "pool_args human_thr ai_thr human_thr_ja ai_thr_ja =
     \<lparr>human_threshold = human_thr, ai_threshold = ai_thr, arg_model = None,
      arg_model_ja = None, human_threshold_ja = Some human_thr_ja,
      ai_threshold_ja = Some ai_thr_ja\<rparr>"

definition pool_globals :: "model \<Rightarrow> model option \<Rightarrow> worker_globals" where
  "pool_globals m m_ja = \<lparr>WORKER_MODEL = Some m, WORKER_MODEL_JA = m_ja\<rparr>"

definition run_evaluation ::
  "platform \<Rightarrow> model \<Rightarrow> model option \<Rightarrow> fl \<Rightarrow> fl \<Rightarrow> fl \<Rightarrow> fl \<Rightarrow> int \<Rightarrow> int
     \<Rightarrow> row list list \<Rightarrow> schedule \<Rightarrow> error + EvalState" where
  "run_evaluation P m m_ja human_thr ai_thr human_thr_ja ai_thr_ja max_rows workers batches sched =
     (let worker_count = max 1 workers
      in if worker_count = 1 then
           seq_loop P (single_args m m_ja human_thr ai_thr human_thr_ja ai_thr_ja)
             max_rows batches init_state 0
         else
           par_loop P (pool_args human_thr ai_thr human_thr_ja ai_thr_ja) (pool_globals m m_ja)
             max_rows (nat (max 2 (worker_count * 3))) batches sched init_state 0 [])"

definition processed_rows :: "EvalState \<Rightarrow> int" where
  "processed_rows state = st_total state"

definition skipped_rows :: "EvalState \<Rightarrow> int" where
  "skipped_rows state = st_skipped state"

section \<open>Model loading and the entry point\<close>

text \<open>
  The JSON object of a model file: every entry may be absent (or null). An entry that is
  present has the type the file format gives it.
  \<^verbatim>\<open>
  def load_model(path):
      model = json.loads(path.read_text(encoding="utf-8"))
      dim = int(model.get("dim") or 0)
      if dim <= 0:
          raise ValueError("Invalid model: dim must be > 0")
      model_type = str(model.get("type") or "naive_bayes_hash3")
      base = {"name": str(model.get("name") or "hash_model"), "type": model_type, "dim": dim,
              "max_chars": int(model.get("max_chars") or 1200),
              "thresholds": model.get("thresholds") or {}}
      if model_type == "logistic_hash3":
          weights = model.get("weights") or []
          if not isinstance(weights, list) or len(weights) != dim:
              raise ValueError("Invalid logistic model: weights length mismatch")
          return {**base, "bias": float(model.get("bias") or 0.0), "weights": [float(x) for x in weights]}
      delta = model.get("delta") or []
      if not isinstance(delta, list) or len(delta) != dim:
          raise ValueError("Invalid NB model: delta length mismatch")
      return {**base, "prior_logit": float(model.get("prior_logit") or 0.0), "delta": [float(x) for x in delta]}
  \<close>
\<close>

record raw_model =
  raw_name :: "pystr option"
  raw_type :: "pystr option"
  raw_dim :: "int option"
  raw_max_chars :: "int option"
  raw_thresholds :: "thresholds option"
  raw_prior_logit :: "fl option"
  raw_delta :: "fl list option"
  raw_bias :: "fl option"
  raw_weights :: "fl list option"

definition int_or :: "int option \<Rightarrow> int \<Rightarrow> int" where
  "int_or v dflt = (case v of None \<Rightarrow> dflt | Some n \<Rightarrow> if n = 0 then dflt else n)"

definition str_or :: "pystr option \<Rightarrow> pystr \<Rightarrow> pystr" where
  "str_or v dflt = (case v of None \<Rightarrow> dflt | Some s \<Rightarrow> if s = [] then dflt else s)"

definition float_or_zero :: "fl option \<Rightarrow> fl" where
  "float_or_zero v = (case v of None \<Rightarrow> Fin 0 | Some x \<Rightarrow> x)"

definition list_or_empty :: "'a list option \<Rightarrow> 'a list" where
  "list_or_empty v = (case v of None \<Rightarrow> [] | Some xs \<Rightarrow> xs)"

definition load_model :: "raw_model \<Rightarrow> error + model" where
  "load_model raw =
     (let d = int_or (raw_dim raw) 0
      in if d \<le> 0 then Inl (ValueError ''Invalid model: dim must be > 0'')
         else
           let mtype = str_or (raw_type raw) (lit ''naive_bayes_hash3'');
               name = str_or (raw_name raw) (lit ''hash_model'');
               max_chars = int_or (raw_max_chars raw) 1200;
               thr = (case raw_thresholds raw of
                        None \<Rightarrow> \<lparr>human_max = None, ai_min = None\<rparr>
                      | Some t \<Rightarrow> t)
           in if mtype = lit ''logistic_hash3'' then
                (let weights = list_or_empty (raw_weights raw)
                 in if int (length weights) \<noteq> d then
                      Inl (ValueError ''Invalid logistic model: weights length mismatch'')
                    else
                      Inr \<lparr>model_name = name, model_type = mtype, model_dim = d,
                           model_max_chars = max_chars, model_thresholds = thr,
                           model_params = Logistic (float_or_zero (raw_bias raw)) weights\<rparr>)
              else
                (let delta = list_or_empty (raw_delta raw)
                 in if int (length delta) \<noteq> d then
                      Inl (ValueError ''Invalid NB model: delta length mismatch'')
                    else
                      Inr \<lparr>model_name = name, model_type = mtype, model_dim = d,
                           model_max_chars = max_chars, model_thresholds = thr,
                           model_params =
                             NaiveBayes (float_or_zero (raw_prior_logit raw)) delta\<rparr>))"

text \<open>
  \<^verbatim>\<open>
  def clamp(value, min_value, max_value):
      if not isinstance(value, (int, float)) or math.isnan(value):
          return min_value
      return max(min_value, min(max_value, float(value)))
  \<close>
  \<open>min(a, b)\<close> is \<open>b\<close> if \<open>b < a\<close> and \<open>a\<close> otherwise; \<open>max(a, b)\<close> is \<open>b\<close> if \<open>b > a\<close>.
\<close>

definition py_min :: "fl \<Rightarrow> fl \<Rightarrow> fl" where
  "py_min a b = (if flt b a then b else a)"

definition py_max :: "fl \<Rightarrow> fl \<Rightarrow> fl" where
  "py_max a b = (if flt a b then b else a)"

definition clamp :: "fl \<Rightarrow> fl \<Rightarrow> fl \<Rightarrow> fl" where
  "clamp v min_value max_value =
     (if isnan v then min_value else py_max min_value (py_min max_value v))"

text \<open>
  The command line: the threshold overrides (a negative value stands for the default of
  the model), the row cap and the worker count. The model files are given by their
  contents, the second one only if \<open>--model-ja\<close> is not empty.
  \<^verbatim>\<open>
  def main():
      args = parse_args()
      model = load_model(Path(args.model))
      model_ja = load_model(Path(args.model_ja)) if args.model_ja else None
      model_human = clamp(float(model.get("thresholds", {}).get("human_max", DEFAULT_HUMAN_THRESHOLD)), 0.0, 1.0)
      model_ai = clamp(float(model.get("thresholds", {}).get("ai_min", DEFAULT_AI_THRESHOLD)), 0.0, 1.0)
      human_threshold = model_human if args.human_threshold < 0 else clamp(args.human_threshold, 0.0, 1.0)
      ai_threshold = model_ai if args.ai_threshold < 0 else clamp(args.ai_threshold, 0.0, 1.0)
      if ai_threshold <= human_threshold:
          raise ValueError("--ai-threshold must be greater than --human-threshold")
      if model_ja is None:
          human_threshold_ja = human_threshold
          ai_threshold_ja = ai_threshold
      else:
          ... the same from model_ja and the -ja options ...
          if ai_threshold_ja <= human_threshold_ja:
              raise ValueError("--ai-threshold-ja must be greater than --human-threshold-ja")
      result = run_evaluation(..., max_rows=max(0, int(args.max_rows)), workers=max(1, int(args.workers)))
      ...
  \<close>
\<close>

record args =
  args_human_threshold :: fl
  args_ai_threshold :: fl
  args_human_threshold_ja :: fl
  args_ai_threshold_ja :: fl
  args_max_rows :: int
  args_workers :: int

definition model_human :: "model \<Rightarrow> fl" where
  "model_human m =
     clamp (case human_max (model_thresholds m) of None \<Rightarrow> DEFAULT_HUMAN_THRESHOLD | Some v \<Rightarrow> v)
       (Fin 0) (Fin 1)"

definition model_ai :: "model \<Rightarrow> fl" where
  "model_ai m =
     clamp (case ai_min (model_thresholds m) of None \<Rightarrow> DEFAULT_AI_THRESHOLD | Some v \<Rightarrow> v)
       (Fin 0) (Fin 1)"

definition effective_threshold :: "fl \<Rightarrow> fl \<Rightarrow> fl" where
  "effective_threshold model_default arg =
     (if flt arg (Fin 0) then model_default else clamp arg (Fin 0) (Fin 1))"

definition main ::
  "platform \<Rightarrow> args \<Rightarrow> raw_model \<Rightarrow> raw_model option \<Rightarrow> row list list \<Rightarrow> schedule
     \<Rightarrow> error + EvalState" where
  "main P ar model_file model_ja_file batches sched =
     (case load_model model_file of
        Inl e \<Rightarrow> Inl e
      | Inr m \<Rightarrow>
          (case (case model_ja_file of
                   None \<Rightarrow> Inr None
                 | Some f \<Rightarrow> (case load_model f of Inl e \<Rightarrow> Inl e | Inr mja \<Rightarrow> Inr (Some mja))) of
             Inl e \<Rightarrow> Inl e
           | Inr m_ja \<Rightarrow>
               (let human_thr = effective_threshold (model_human m) (args_human_threshold ar);
                    ai_thr = effective_threshold (model_ai m) (args_ai_threshold ar)
                in if fle ai_thr human_thr then
                     Inl (ValueError ''--ai-threshold must be greater than --human-threshold'')
                   else
                     (case m_ja of
                        None \<Rightarrow>
                          run_evaluation P m None human_thr ai_thr human_thr ai_thr
                            (max 0 (args_max_rows ar)) (max 1 (args_workers ar)) batches sched
                      | Some mja \<Rightarrow>
                          (let human_thr_ja =
                                 effective_threshold (model_human mja) (args_human_threshold_ja ar);
                               ai_thr_ja =
                                 effective_threshold (model_ai mja) (args_ai_threshold_ja ar)
                           in if fle ai_thr_ja human_thr_ja then
                                Inl (ValueError
                                  ''--ai-threshold-ja must be greater than --human-threshold-ja'')
                              else
                                run_evaluation P m (Some mja) human_thr ai_thr human_thr_ja
                                  ai_thr_ja (max 0 (args_max_rows ar)) (max 1 (args_workers ar))
                                  batches sched)))))"

section \<open>Concrete inputs of the examples\<close>

text \<open>
  Two additive models with two buckets. \<open>capped_model\<close> declares \<open>max_chars = 200\<close>, the
  least value of the file format; \<open>steep_model\<close> scores every trigram-bearing text with the
  logit \<open>-38\<close>. A long text and a variant of it that differs only after the first 200
  characters.
\<close>

definition capped_model :: model where
  "capped_model =
     \<lparr>model_name = lit ''capped'', model_type = lit ''naive_bayes_hash3'', model_dim = 2,
      model_max_chars = 200, model_thresholds = \<lparr>human_max = None, ai_min = None\<rparr>,
      model_params = NaiveBayes (Fin 0) [Fin 0, Fin (- 38)]\<rparr>"

definition steep_model :: model where
  "steep_model =
     \<lparr>model_name = lit ''steep'', model_type = lit ''naive_bayes_hash3'', model_dim = 2,
      model_max_chars = 1200, model_thresholds = \<lparr>human_max = None, ai_min = None\<rparr>,
      model_params = NaiveBayes (Fin (- 38)) [Fin 0, Fin 0]\<rparr>"

definition long_text :: "pychar \<Rightarrow> pystr" where
  "long_text c = replicate 200 0x61 @ [c]"

text \<open>
  The arguments of an evaluation with \<open>steep_model\<close> alone and the default thresholds, and
  three valid rows: a text too short for a trigram and, twice, the text \<open>aaa\<close>.
\<close>

definition steep_args :: eval_args where
  "steep_args =
     \<lparr>human_threshold = DEFAULT_HUMAN_THRESHOLD, ai_threshold = DEFAULT_AI_THRESHOLD,
      arg_model = Some steep_model, arg_model_ja = None,
      human_threshold_ja = Some DEFAULT_HUMAN_THRESHOLD,
      ai_threshold_ja = Some DEFAULT_AI_THRESHOLD\<rparr>"

definition short_row :: "string \<times> pystr" where
  "short_row = (''AI'', lit ''a'')"

definition steep_row :: "string \<times> pystr" where
  "steep_row = (''AI'', lit ''aaa'')"


section \<open>Notions used by the properties of the evaluation\<close>

text \<open>
  The consistency of the counters of a \<open>PartialResult\<close> and of an \<open>EvalState\<close>: the total
  is the sum of the ground-truth counts, of the prediction counts, of the six confusion
  cells and of the two language tallies; the decided rows are the AI and Human
  predictions; the correct counts are bounded as stated.
\<close>

definition result_consistent :: "partial_result \<Rightarrow> bool" where
  "result_consistent p =
     (p_total p = p_gt_ai p + p_gt_human p
      \<and> p_total p = p_pred_ai p + p_pred_human p + p_pred_unknown p
      \<and> p_total p = p_ai_ai p + p_ai_human p + p_ai_unknown p
                     + p_human_ai p + p_human_human p + p_human_unknown p
      \<and> p_total p = p_jp_rows p + p_non_jp_rows p
      \<and> p_decided_rows p = p_pred_ai p + p_pred_human p
      \<and> p_decided_correct p \<le> p_decided_rows p
      \<and> p_decided_rows p \<le> p_total p
      \<and> p_strict_correct p = p_jp_strict_correct p + p_non_jp_strict_correct p
      \<and> p_strict_correct p \<le> p_total p)"

definition state_consistent :: "EvalState \<Rightarrow> bool" where
  "state_consistent s =
     (st_total s = counter_get (st_gt_counts s) ''AI'' + counter_get (st_gt_counts s) ''Human''
      \<and> st_total s = counter_get (st_pred_counts s) ''AI''
                      + counter_get (st_pred_counts s) ''Human''
                      + counter_get (st_pred_counts s) ''Unknown''
      \<and> st_total s = counter_get (st_conf s) (''AI'', ''AI'')
                      + counter_get (st_conf s) (''AI'', ''Human'')
                      + counter_get (st_conf s) (''AI'', ''Unknown'')
                      + counter_get (st_conf s) (''Human'', ''AI'')
                      + counter_get (st_conf s) (''Human'', ''Human'')
                      + counter_get (st_conf s) (''Human'', ''Unknown'')
      \<and> st_total s = st_jp_rows s + st_non_jp_rows s
      \<and> st_decided_rows s = counter_get (st_pred_counts s) ''AI''
                             + counter_get (st_pred_counts s) ''Human''
      \<and> st_decided_correct s \<le> st_decided_rows s
      \<and> st_decided_rows s \<le> st_total s
      \<and> st_strict_correct s = st_jp_strict_correct s + st_non_jp_strict_correct s
      \<and> st_strict_correct s \<le> st_total s)"

text \<open>
  Pairwise addition of the integer counters of two results (the sum of the scores, a
  float, is left out and reads 0.0), the integer counters \<open>ints\<close> of one result, and the
  integer counters of a state read as a result.
  Two states have the same aggregated integer counters when their \<open>state_tally\<close> agree.
\<close>

definition add_counts :: "partial_result \<Rightarrow> partial_result \<Rightarrow> partial_result" where
  "add_counts p q =
     \<lparr>p_total = p_total p + p_total q,
      p_strict_correct = p_strict_correct p + p_strict_correct q,
      p_decided_rows = p_decided_rows p + p_decided_rows q,
      p_decided_correct = p_decided_correct p + p_decided_correct q,
      p_score_sum = Fin 0,
      p_gt_ai = p_gt_ai p + p_gt_ai q,
      p_gt_human = p_gt_human p + p_gt_human q,
      p_pred_ai = p_pred_ai p + p_pred_ai q,
      p_pred_human = p_pred_human p + p_pred_human q,
      p_pred_unknown = p_pred_unknown p + p_pred_unknown q,
      p_ai_ai = p_ai_ai p + p_ai_ai q,
      p_ai_human = p_ai_human p + p_ai_human q,
      p_ai_unknown = p_ai_unknown p + p_ai_unknown q,
      p_human_ai = p_human_ai p + p_human_ai q,
      p_human_human = p_human_human p + p_human_human q,
      p_human_unknown = p_human_unknown p + p_human_unknown q,
      p_jp_rows = p_jp_rows p + p_jp_rows q,
      p_jp_strict_correct = p_jp_strict_correct p + p_jp_strict_correct q,
      p_non_jp_rows = p_non_jp_rows p + p_non_jp_rows q,
      p_non_jp_strict_correct = p_non_jp_strict_correct p + p_non_jp_strict_correct q\<rparr>"

definition ints :: "partial_result \<Rightarrow> partial_result" where
  "ints p = add_counts p zero_result"

definition state_tally :: "EvalState \<Rightarrow> partial_result" where
  "state_tally s =
     \<lparr>p_total = st_total s,
      p_strict_correct = st_strict_correct s,
      p_decided_rows = st_decided_rows s,
      p_decided_correct = st_decided_correct s,
      p_score_sum = Fin 0,
      p_gt_ai = counter_get (st_gt_counts s) ''AI'',
      p_gt_human = counter_get (st_gt_counts s) ''Human'',
      p_pred_ai = counter_get (st_pred_counts s) ''AI'',
      p_pred_human = counter_get (st_pred_counts s) ''Human'',
      p_pred_unknown = counter_get (st_pred_counts s) ''Unknown'',
      p_ai_ai = counter_get (st_conf s) (''AI'', ''AI''),
      p_ai_human = counter_get (st_conf s) (''AI'', ''Human''),
      p_ai_unknown = counter_get (st_conf s) (''AI'', ''Unknown''),
      p_human_ai = counter_get (st_conf s) (''Human'', ''AI''),
      p_human_human = counter_get (st_conf s) (''Human'', ''Human''),
      p_human_unknown = counter_get (st_conf s) (''Human'', ''Unknown''),
      p_jp_rows = st_jp_rows s,
      p_jp_strict_correct = st_jp_strict_correct s,
      p_non_jp_rows = st_non_jp_rows s,
      p_non_jp_strict_correct = st_non_jp_strict_correct s\<rparr>"

text \<open>
  The value of a computation that may raise, and the sum of the counters of two such
  values. \<open>tally_rows\<close> is what a list of rows contributes to the integer counters, row by
  row from fresh counters, if the scorer raises on none of them; \<open>futures_tally\<close> is the
  same for a list of task results.
\<close>

definition ok :: "error + 'a \<Rightarrow> 'a option" where
  "ok r = (case r of Inl e \<Rightarrow> None | Inr x \<Rightarrow> Some x)"

fun oadd :: "partial_result option \<Rightarrow> partial_result option \<Rightarrow> partial_result option" where
  "oadd (Some p) (Some q) = Some (add_counts p q)"
| "oadd _ _ = None"

fun tally_rows ::
  "platform \<Rightarrow> eval_args \<Rightarrow> model \<Rightarrow> model option \<Rightarrow> (string \<times> pystr) list
     \<Rightarrow> partial_result option" where
  "tally_rows P a m mja [] = Some (add_counts zero_result zero_result)"
| "tally_rows P a m mja (row # rows) =
     oadd (ok (eval_row P a m mja zero_result row)) (tally_rows P a m mja rows)"

definition futures_tally :: "future list \<Rightarrow> partial_result option" where
  "futures_tally futs = foldr oadd (map ok futs) (Some (add_counts zero_result zero_result))"

text \<open>
  The filter as a function of one row: the accepted pair, or nothing for a row that is
  skipped. The selection of a stream of rows under a cap \<open>max_rows\<close> with \<open>accepted_rows\<close>
  already taken: the accepted pairs and the number of rows skipped on the way.
\<close>

definition valid_row :: "platform \<Rightarrow> row \<Rightarrow> (string \<times> pystr) option" where
  "valid_row P r =
     (let gt_raw = str_lower P (str_strip (str_or_empty (row_label r)));
          text = str_or_empty (row_text r)
      in if gt_raw \<noteq> lit ''ai'' \<and> gt_raw \<noteq> lit ''human'' then None
         else if normalize_text P (Some text) = [] then None
         else Some (if gt_raw = lit ''ai'' then ''AI'' else ''Human'', text))"

fun budget_prefix :: "platform \<Rightarrow> nat \<Rightarrow> row list \<Rightarrow> row list" where
  "budget_prefix P n [] = []"
| "budget_prefix P n (r # rows) =
     (case valid_row P r of
        None \<Rightarrow> r # budget_prefix P n rows
      | Some v \<Rightarrow> if n \<le> 1 then [r] else r # budget_prefix P (n - 1) rows)"

text \<open>
  The rows that claim C8 is about: the label, trimmed and lowercased, is neither \<open>ai\<close> nor
  \<open>human\<close>, or the normalized text is empty. \<open>skip_more n\<close> adds \<open>n\<close> to the skipped counter of
  a state and leaves every other field as it is.
\<close>

definition row_rejected :: "platform \<Rightarrow> row \<Rightarrow> bool" where
  "row_rejected P r =
     ((str_lower P (str_strip (str_or_empty (row_label r))) \<noteq> lit ''ai''
       \<and> str_lower P (str_strip (str_or_empty (row_label r))) \<noteq> lit ''human'')
      \<or> normalize_text P (Some (str_or_empty (row_text r))) = [])"

definition skip_more :: "int \<Rightarrow> EvalState \<Rightarrow> EvalState" where
  "skip_more n state = state\<lparr>st_skipped := st_skipped state + n\<rparr>"

text \<open>
  The pairs that the filter accepts from a stream of rows when there is no cap, in the order
  of the stream.
\<close>

definition accepted_pairs :: "platform \<Rightarrow> row list \<Rightarrow> (string \<times> pystr) list" where
  "accepted_pairs P rows = List.map_filter (valid_row P) rows"

text \<open>
  The results of the filter on the batches that the loop reads, batch by batch until the
  cap is reached: the accepted pairs and the skipped count of each batch. The two loops of
  \<open>run_evaluation\<close> as functions of these results.
\<close>

fun select_batches ::
  "platform \<Rightarrow> int \<Rightarrow> row list list \<Rightarrow> int \<Rightarrow> ((string \<times> pystr) list \<times> int) list" where
  "select_batches P max_rows [] accepted_rows = []"
| "select_batches P max_rows (rows # batches) accepted_rows =
     (case select_valid_rows P rows max_rows accepted_rows of
        (valid_rows, accepted_rows', skipped, should_stop) \<Rightarrow>
          (valid_rows, skipped)
            # (if should_stop then [] else select_batches P max_rows batches accepted_rows'))"

fun seq_steps ::
  "platform \<Rightarrow> eval_args \<Rightarrow> ((string \<times> pystr) list \<times> int) list \<Rightarrow> EvalState
     \<Rightarrow> error + EvalState" where
  "seq_steps P a [] state = Inr state"
| "seq_steps P a ((valid_rows, skipped) # rest) state =
     (let state1 = state\<lparr>st_skipped := st_skipped state + skipped\<rparr>
      in if valid_rows \<noteq> [] then
           (case evaluate_valid_rows P no_globals valid_rows a of
              Inl e \<Rightarrow> Inl e
            | Inr part \<Rightarrow> seq_steps P a rest (merge_partial_result P state1 part))
         else seq_steps P a rest state1)"

fun par_steps ::
  "platform \<Rightarrow> eval_args \<Rightarrow> worker_globals \<Rightarrow> nat \<Rightarrow> ((string \<times> pystr) list \<times> int) list
     \<Rightarrow> schedule \<Rightarrow> EvalState \<Rightarrow> future list \<Rightarrow> error + EvalState" where
  "par_steps P a G max_inflight [] sched state pending =
     merge_results P state (shuffle (next_choices sched) pending)"
| "par_steps P a G max_inflight ((valid_rows, skipped) # rest) sched state pending =
     (let state1 = state\<lparr>st_skipped := st_skipped state + skipped\<rparr>;
          pending1 = (if valid_rows \<noteq> [] then pending @ [evaluate_valid_rows P G valid_rows a]
                      else pending)
      in if max_inflight \<le> length pending1 then
           (case wait_first_completed (next_choices sched) pending1 of
              (done, not_done) \<Rightarrow>
                (case merge_results P state1 done of
                   Inl e \<Rightarrow> Inl e
                 | Inr state2 \<Rightarrow> par_steps P a G max_inflight rest (tl sched) state2 not_done))
         else par_steps P a G max_inflight rest sched state1 pending1)"

text \<open>A model as \<open>load_model\<close> returns it: a positive \<open>dim\<close> and \<open>dim\<close> parameters of its family.\<close>

definition model_wf :: "model \<Rightarrow> bool" where
  "model_wf m =
     (0 < model_dim m
      \<and> (case model_params m of
            NaiveBayes prior delta \<Rightarrow>
              type_or_default (model_type m) \<noteq> lit ''logistic_hash3''
              \<and> int (length delta) = model_dim m
          | Logistic bias weights \<Rightarrow>
              type_or_default (model_type m) = lit ''logistic_hash3''
              \<and> int (length weights) = model_dim m))"

text \<open>
  The faults of a model file that claim C9 names: a \<open>dim\<close> that is absent or not positive,
  and a parameter array of the family of the model whose length is not \<open>dim\<close>.
\<close>

definition raw_param_count :: "raw_model \<Rightarrow> nat" where
  "raw_param_count raw =
     (if str_or (raw_type raw) (lit ''naive_bayes_hash3'') = lit ''logistic_hash3''
      then length (list_or_empty (raw_weights raw))
      else length (list_or_empty (raw_delta raw)))"

definition model_file_bad :: "raw_model \<Rightarrow> bool" where
  "model_file_bad raw =
     (int_or (raw_dim raw) 0 \<le> 0 \<or> int (raw_param_count raw) \<noteq> int_or (raw_dim raw) 0)"

text \<open>
  Model files and command lines of the examples: the file of \<open>steep_model\<close>, the same file
  with \<open>dim = 0\<close> and with three parameters for \<open>dim = 2\<close>; a command line with the
  defaults of the program and one whose thresholds are in the wrong order. Three rows of
  a dataset: a valid one, one with an unknown label and one whose text is blank.
\<close>

definition steep_file :: raw_model where
  "steep_file =
     \<lparr>raw_name = Some (lit ''steep''), raw_type = Some (lit ''naive_bayes_hash3''),
      raw_dim = Some 2, raw_max_chars = Some 1200, raw_thresholds = None,
      raw_prior_logit = Some (Fin (- 38)), raw_delta = Some [Fin 0, Fin 0],
      raw_bias = None, raw_weights = None\<rparr>"

definition default_args :: args where
  "default_args =
     \<lparr>args_human_threshold = Fin (- 1), args_ai_threshold = Fin (- 1),
      args_human_threshold_ja = Fin (- 1), args_ai_threshold_ja = Fin (- 1),
      args_max_rows = 0, args_workers = 10\<rparr>"

definition swapped_args :: args where
  "swapped_args =
     \<lparr>args_human_threshold = Fin (3 / 4), args_ai_threshold = Fin (1 / 2),
      args_human_threshold_ja = Fin (- 1), args_ai_threshold_ja = Fin (- 1),
      args_max_rows = 0, args_workers = 10\<rparr>"

definition good_row :: row where
  "good_row = \<lparr>row_text = Some (lit ''a''), row_label = Some (lit '' AI'')\<rparr>"

definition bad_row :: row where
  "bad_row = \<lparr>row_text = Some (lit ''a''), row_label = Some (lit ''maybe'')\<rparr>"

definition blank_row :: row where
  "blank_row = \<lparr>row_text = Some [0x20, 0x09], row_label = Some (lit ''human'')\<rparr>"


section \<open>Properties of the trigram hasher\<close>

lemma mask32_step:
  "((uint (h :: 32 word) XOR int c) * 16777619) AND 0xFFFFFFFF = uint (fnv1a_step h c)"
proof -
  have m: "(0xFFFFFFFF :: int) = mask 32"
    by (simp add: mask_eq_exp_minus_1)
  have "uint (fnv1a_step h c) = take_bit 32 ((uint h XOR take_bit 32 (int c)) * 16777619)"
    by (simp add: fnv1a_step_def uint_word_arith_bintrs uint_xor unsigned_of_nat take_bit_of_nat)
  also have "\<dots> = take_bit 32 (take_bit 32 (uint h XOR int c) * 16777619)"
  proof -
    have "uint h < 2 ^ 32"
      using uint_lt2p [of h] by simp
    then have "take_bit 32 (uint h) = uint h"
      by (simp add: take_bit_int_eq_self_iff)
    then show ?thesis
      by (simp add: take_bit_xor)
  qed
  also have "\<dots> = take_bit 32 ((uint h XOR int c) * 16777619)"
    by (simp only: take_bit_eq_mod mod_mult_left_eq)
  finally show ?thesis
    unfolding m by (simp add: take_bit_eq_mask)
qed

lemma hash_loop_fold:
  assumes "py_getitem text start = Inr a"
    and "py_getitem text (start + 1) = Inr b"
    and "py_getitem text (start + 2) = Inr c"
  shows "hash_loop text start [0, 1, 2] (uint h) = Inr (uint (foldl fnv1a_step h [a, b, c]))"
  using assms by (simp add: mask32_step)

lemma hash_loop_three:
  assumes "py_getitem text start = Inr a"
    and "py_getitem text (start + 1) = Inr b"
    and "py_getitem text (start + 2) = Inr c"
  shows "hash_loop text start [0, 1, 2] 2166136261 = Inr (uint (fnv1a32 [a, b, c]))"
  using hash_loop_fold [OF assms, of 2166136261] by (simp add: fnv1a32_def)

text \<open>
  Claim C4. Whenever the three characters at \<open>start\<close>, \<open>start + 1\<close> and \<open>start + 2\<close> exist
  and \<open>dim\<close> is positive, \<open>hash_trigram\<close> returns the 32-bit FNV-1a hash of those three
  characters reduced modulo \<open>dim\<close>, a bucket index in \<open>[0, dim)\<close>.
\<close>

theorem hash_trigram_fnv1a:
  assumes "0 < d"
    and "py_getitem text start = Inr a"
    and "py_getitem text (start + 1) = Inr b"
    and "py_getitem text (start + 2) = Inr c"
  shows "\<exists>h. hash_trigram text start d = Inr h
           \<and> h = uint (fnv1a32 [a, b, c]) mod d \<and> 0 \<le> h \<and> h < d"
  using assms(1) hash_loop_three [OF assms(2-4)]
  by (simp add: hash_trigram_def)

theorem hash_trigram_fnv1a_witness:
  "\<exists>h. hash_trigram (lit ''the'') 0 4096 = Inr h
     \<and> h = uint (fnv1a32 (lit ''the'')) mod 4096 \<and> 0 \<le> h \<and> h < 4096"
  using hash_trigram_fnv1a [of 4096 "lit ''the''" 0
      "of_char CHR ''t''" "of_char CHR ''h''" "of_char CHR ''e''"]
  by (simp add: py_getitem_def lit_def)

section \<open>Properties of the classifier\<close>

lemma flt_NaN [simp]: "\<not> flt NaN b" "\<not> flt a NaN"
  by (cases b; simp) (cases a; simp)

text \<open>
  Claim C6, for scores that are numbers. With \<open>human_max < ai_min\<close>, \<open>predict_judge\<close> returns
  Human exactly when the score is below \<open>human_max\<close>, AI exactly when it is at least
  \<open>ai_min\<close>, Unknown exactly in between; lowering the score never moves the class upwards
  in the order Human, Unknown, AI.
\<close>

theorem predict_judge_classes:
  assumes "flt h a" and "s \<noteq> NaN"
  shows "(predict_judge s h a = ''Human'' \<longleftrightarrow> flt s h)
       \<and> (predict_judge s h a = ''AI'' \<longleftrightarrow> fle a s)
       \<and> (predict_judge s h a = ''Unknown'' \<longleftrightarrow> \<not> flt s h \<and> \<not> fle a s)
       \<and> (\<forall>s'. s' \<noteq> NaN \<and> fle s' s \<longrightarrow>
             judge_rank (predict_judge s' h a) \<le> judge_rank (predict_judge s h a))"
proof -
  have 1: "predict_judge s h a = ''Human'' \<longleftrightarrow> flt s h"
    by (simp add: predict_judge_def)
  have 2: "predict_judge s h a = ''AI'' \<longleftrightarrow> fle a s"
    using assms by (cases s; cases h; cases a) (auto simp: predict_judge_def fle_def)
  have 3: "predict_judge s h a = ''Unknown'' \<longleftrightarrow> \<not> flt s h \<and> \<not> fle a s"
    using assms by (cases s; cases h; cases a) (auto simp: predict_judge_def fle_def)
  have 4: "judge_rank (predict_judge s' h a) \<le> judge_rank (predict_judge s h a)"
    if "s' \<noteq> NaN" "fle s' s" for s'
    using assms that
    by (cases s; cases s'; cases h; cases a) (auto simp: predict_judge_def fle_def judge_rank_def)
  show ?thesis using 1 2 3 4 by blast
qed

theorem predict_judge_classes_witness:
  "flt DEFAULT_HUMAN_THRESHOLD DEFAULT_AI_THRESHOLD \<and> Fin (1 / 2) \<noteq> NaN
   \<and> predict_judge (Fin (1 / 2)) DEFAULT_HUMAN_THRESHOLD DEFAULT_AI_THRESHOLD = ''Unknown''
   \<and> judge_rank (predict_judge (Fin (1 / 4)) DEFAULT_HUMAN_THRESHOLD DEFAULT_AI_THRESHOLD)
       \<le> judge_rank (predict_judge (Fin (1 / 2)) DEFAULT_HUMAN_THRESHOLD DEFAULT_AI_THRESHOLD)"
proof -
  have h: "flt DEFAULT_HUMAN_THRESHOLD DEFAULT_AI_THRESHOLD"
    by (simp add: DEFAULT_HUMAN_THRESHOLD_def DEFAULT_AI_THRESHOLD_def)
  have n: "Fin (1 / 2) \<noteq> NaN"
    by simp
  have l: "Fin (1 / 4) \<noteq> NaN \<and> fle (Fin (1 / 4)) (Fin (1 / 2))"
    by (simp add: fle_def)
  have u: "\<not> flt (Fin (1 / 2)) DEFAULT_HUMAN_THRESHOLD
           \<and> \<not> fle DEFAULT_AI_THRESHOLD (Fin (1 / 2))"
    by (simp add: DEFAULT_HUMAN_THRESHOLD_def DEFAULT_AI_THRESHOLD_def fle_def)
  show ?thesis
    using predict_judge_classes [OF h n] h n l u by blast
qed

text \<open>
  Claim C6 as stated covers every score. A NaN score fails both comparisons and is
  classified AI, although it is not at least \<open>ai_min\<close>.
\<close>

theorem predict_judge_nan_counterexample:
  "\<not> (flt DEFAULT_HUMAN_THRESHOLD DEFAULT_AI_THRESHOLD \<longrightarrow>
        (predict_judge NaN DEFAULT_HUMAN_THRESHOLD DEFAULT_AI_THRESHOLD = ''AI''
           \<longleftrightarrow> fle DEFAULT_AI_THRESHOLD NaN))"
  by (simp add: predict_judge_def fle_def DEFAULT_HUMAN_THRESHOLD_def DEFAULT_AI_THRESHOLD_def)

section \<open>Properties of the normalizer\<close>

lemma is_hspace_replace:
  "is_hspace (if c = 0xA0 then 0x20 else c) \<longleftrightarrow> hspace_or_nbsp c"
  by (simp add: is_hspace_def hspace_or_nbsp_def)

lemma replace_not_blank:
  "\<not> hspace_or_nbsp c \<Longrightarrow> (if c = 0xA0 then 0x20 else c) = c"
  by (simp add: hspace_or_nbsp_def)

lemma re_sub_replace_collapse:
  "re_sub_hspace (str_replace_nbsp s) = collapse_runs hspace_or_nbsp s"
proof (induction hspace_or_nbsp s rule: collapse_runs.induct)
  case 1
  then show ?case by (simp add: str_replace_nbsp_def)
next
  case (2 c)
  then show ?case
    by (simp add: str_replace_nbsp_def is_hspace_replace replace_not_blank)
next
  case (3 c d s)
  then show ?case
    by (simp add: str_replace_nbsp_def is_hspace_replace replace_not_blank)
qed

text \<open>
  Claim C2, for the whitespace that the pattern of the normalizer names. \<open>normalize_text\<close>
  returns the lowercased text in which every maximal run of spaces, tabs, form feeds,
  vertical tabs and no-break spaces is one ASCII space, with leading and trailing whitespace
  removed.
\<close>

theorem normalize_text_collapses:
  "normalize_text P v = spec_normalize P hspace_or_nbsp v"
  by (simp add: normalize_text_def spec_normalize_def re_sub_replace_collapse)

theorem normalize_text_collapses_witness:
  "normalize_text ref_platform (Some [0x20, 0x41, 0x09, 0xA0, 0x42, 0x0A, 0x43, 0x0A])
     = [0x61, 0x20, 0x62, 0x0A, 0x63]
   \<and> spec_normalize ref_platform hspace_or_nbsp (Some [0x20, 0x41, 0x09, 0xA0, 0x42, 0x0A, 0x43, 0x0A])
     = [0x61, 0x20, 0x62, 0x0A, 0x63]"
  using normalize_text_collapses [of ref_platform "Some [0x20, 0x41, 0x09, 0xA0, 0x42, 0x0A, 0x43, 0x0A]"]
  by (simp add: spec_normalize_def str_or_empty_def hspace_or_nbsp_def is_hspace_def
      str_strip_def py_isspace_def ref_platform_def ascii_lower_def)

text \<open>
  Claim C2 as stated speaks of every run of whitespace characters. A run of newlines
  inside the text is whitespace and stays as it is.
\<close>

theorem normalize_text_newline_counterexample:
  "normalize_text ref_platform (Some [0x61, 0x0A, 0x0A, 0x62])
     \<noteq> spec_normalize ref_platform py_isspace (Some [0x61, 0x0A, 0x0A, 0x62])"
  by (simp add: normalize_text_def spec_normalize_def str_or_empty_def str_replace_nbsp_def
      is_hspace_def str_strip_def py_isspace_def ref_platform_def ascii_lower_def)

subsection \<open>Normalizer: fixed points\<close>

lemma blank_is_space: "hspace_or_nbsp c \<Longrightarrow> py_isspace c"
  by (auto simp: hspace_or_nbsp_def is_hspace_def py_isspace_def)

lemma collapse_runs_Cons_other: "\<not> W c \<Longrightarrow> collapse_runs W (c # s) = c # collapse_runs W s"
  by (cases s) simp_all

lemma run_free_collapse_runs: "run_free W (collapse_runs W s)"
proof (induction W s rule: collapse_runs.induct)
  case (3 W c d s)
  then show ?case
    by (cases "W d") (simp_all add: collapse_runs_Cons_other)
qed simp_all

lemma run_free_dropWhile: "run_free W s \<Longrightarrow> run_free W (dropWhile Q s)"
  by (induction s) simp_all

lemma run_free_prefix: "run_free W (a @ b) \<Longrightarrow> run_free W a"
  by (induction a) (auto split: if_splits)

lemma strip_prefix: "\<exists>b. dropWhile Q s = rev (dropWhile Q (rev (dropWhile Q s))) @ b"
proof -
  let ?t = "dropWhile Q s"
  have "?t = rev (takeWhile Q (rev ?t) @ dropWhile Q (rev ?t))"
    by (simp only: takeWhile_dropWhile_id rev_rev_ident)
  then have "?t = rev (dropWhile Q (rev ?t)) @ rev (takeWhile Q (rev ?t))"
    by (simp only: rev_append)
  then show ?thesis ..
qed

lemma run_free_str_strip: "run_free W s \<Longrightarrow> run_free W (str_strip s)"
proof -
  assume "run_free W s"
  then have d: "run_free W (dropWhile py_isspace s)"
    by (rule run_free_dropWhile)
  obtain b where "dropWhile py_isspace s = str_strip s @ b"
    using strip_prefix [of py_isspace s] by (auto simp: str_strip_def)
  with d have "run_free W (str_strip s @ b)"
    by simp
  then show ?thesis
    by (rule run_free_prefix)
qed

lemma run_free_fixed: "run_free W s \<Longrightarrow> collapse_runs W s = s"
proof (induction W s rule: collapse_runs.induct)
  case (1 W)
  show ?case by simp
next
  case (2 W c)
  then show ?case by (cases "W c") simp_all
next
  case (3 W c d s)
  from "3.prems" have r: "run_free W (d # s)"
    by simp
  show ?case
  proof (cases "W c")
    case True
    with "3.prems" have "c = 0x20" and "\<not> W d"
      by simp_all
    with True r "3.IH"(2) show ?thesis
      by simp
  next
    case False
    with r "3.IH"(3) show ?thesis
      by simp
  qed
qed

lemma run_free_other: "\<forall>c \<in> set a. \<not> W c \<Longrightarrow> run_free W (a @ t) = run_free W t"
proof (induction a)
  case Nil
  show ?case by simp
next
  case (Cons c a)
  then have "\<not> W c" and "run_free W (a @ t) = run_free W t"
    by simp_all
  then show ?case
    by (simp del: hd_append)
qed


lemma ends_clean_str_strip: "ends_clean (str_strip s)"
proof (cases "str_strip s = []")
  case True
  then show ?thesis by (simp add: ends_clean_def)
next
  case False
  let ?t = "dropWhile py_isspace s"
  have n: "dropWhile py_isspace (rev ?t) \<noteq> []"
    using False by (simp add: str_strip_def)
  then have l: "\<not> py_isspace (last (str_strip s))"
    by (simp add: str_strip_def last_rev hd_dropWhile)
  obtain b where b: "?t = str_strip s @ b"
    using strip_prefix [of py_isspace s] by (auto simp: str_strip_def)
  then have "?t \<noteq> []"
    using False by auto
  then have "\<not> py_isspace (hd ?t)"
    by (rule hd_dropWhile)
  moreover have "hd ?t = hd (str_strip s)"
    using False by (subst b) (rule hd_append2)
  ultimately show ?thesis
    using l by (simp add: ends_clean_def)
qed

lemma ends_clean_fixed: "ends_clean s \<Longrightarrow> str_strip s = s"
proof (cases s)
  case Nil
  then show ?thesis by (simp add: str_strip_def)
next
  case (Cons c t)
  assume "ends_clean s"
  then have h: "\<not> py_isspace (hd s)" and l: "\<not> py_isspace (last s)"
    using Cons by (auto simp: ends_clean_def)
  have 1: "dropWhile py_isspace s = s"
    using h Cons by simp
  have "rev s \<noteq> []"
    using Cons by simp
  moreover have "\<not> py_isspace (hd (rev s))"
    using l by (simp add: hd_rev)
  ultimately have 2: "dropWhile py_isspace (rev s) = rev s"
    by (cases "rev s") auto
  show ?thesis
    by (simp add: str_strip_def 1 2)
qed

subsection \<open>Normalizer: lowercasing keeps the whitespace in place\<close>

lemma lower_idem: "lower_respects_space L \<Longrightarrow> L (L s) = L s"
  by (simp add: lower_respects_space_def)

lemma lower_Nil_iff: "lower_respects_space L \<Longrightarrow> L s = [] \<longleftrightarrow> s = []"
  by (simp add: lower_respects_space_def)

lemma lower_split:
  "lower_respects_space L \<Longrightarrow> py_isspace w \<Longrightarrow> L (a @ w # b) = L a @ w # L b"
  by (simp add: lower_respects_space_def)

lemma lower_no_space:
  "lower_respects_space L \<Longrightarrow> \<forall>c \<in> set s. \<not> py_isspace c \<Longrightarrow> \<forall>c \<in> set (L s). \<not> py_isspace c"
  by (simp add: lower_respects_space_def)

lemma lower_hd:
  assumes L: "lower_respects_space L" and s: "s \<noteq> []"
  shows "if py_isspace (hd s) then hd (L s) = hd s else \<not> py_isspace (hd (L s))"
proof (cases "py_isspace (hd s)")
  case True
  have "s = [] @ hd s # tl s"
    using s by simp
  then have "L s = L [] @ hd s # L (tl s)"
    using lower_split [OF L True, of "[]" "tl s"] by simp
  then show ?thesis
    using True lower_Nil_iff [OF L, of "[]"] by simp
next
  case False
  have hd_in: "hd (L s) \<in> set (L a)" if a: "a \<noteq> []" "L s = L a @ r" for a r
  proof -
    have "L a \<noteq> []"
      using a(1) lower_Nil_iff [OF L, of a] by simp
    then show ?thesis
      using a(2) by simp
  qed
  show ?thesis
  proof (cases "\<exists>c \<in> set s. py_isspace c")
    case no: False
    then have "\<forall>c \<in> set (L s). \<not> py_isspace c"
      using lower_no_space [OF L, of s] by simp
    moreover have "hd (L s) \<in> set (L s)"
      using hd_in [of s "[]"] s by simp
    ultimately show ?thesis
      using False by simp
  next
    case True
    then obtain a w b where d: "s = a @ w # b" "py_isspace w" "\<forall>c \<in> set a. \<not> py_isspace c"
      using split_list_first_prop [of s py_isspace] by blast
    have "a \<noteq> []"
      using d(1,2) False by (cases a) auto
    moreover have "L s = L a @ w # L b"
      using lower_split [OF L d(2)] d(1) by simp
    ultimately have "hd (L s) \<in> set (L a)"
      by (rule hd_in)
    then show ?thesis
      using False lower_no_space [OF L d(3)] by simp
  qed
qed

lemma lower_last:
  assumes L: "lower_respects_space L" and s: "s \<noteq> []"
  shows "if py_isspace (last s) then last (L s) = last s else \<not> py_isspace (last (L s))"
proof (cases "py_isspace (last s)")
  case True
  have "s = butlast s @ last s # []"
    using s by simp
  then have "L s = L (butlast s) @ last s # L []"
    using lower_split [OF L True, of "butlast s" "[]"] by simp
  then show ?thesis
    using True lower_Nil_iff [OF L, of "[]"] by simp
next
  case False
  have last_in: "last (L s) \<in> set (L b)" if b: "b \<noteq> []" "L s = r @ L b" for b r
  proof -
    have "L b \<noteq> []"
      using b(1) lower_Nil_iff [OF L, of b] by simp
    then show ?thesis
      using b(2) by simp
  qed
  show ?thesis
  proof (cases "\<exists>c \<in> set s. py_isspace c")
    case no: False
    then have "\<forall>c \<in> set (L s). \<not> py_isspace c"
      using lower_no_space [OF L, of s] by simp
    moreover have "last (L s) \<in> set (L s)"
      using last_in [of s "[]"] s by simp
    ultimately show ?thesis
      using False by simp
  next
    case True
    then obtain a w b where d: "s = a @ w # b" "py_isspace w" "\<forall>c \<in> set b. \<not> py_isspace c"
      using split_list_last_prop [of s py_isspace] by blast
    have "b \<noteq> []"
      using d(1,2) False by (cases b rule: rev_cases) auto
    moreover have "L s = (L a @ [w]) @ L b"
      using lower_split [OF L d(2)] d(1) by simp
    ultimately have "last (L s) \<in> set (L b)"
      by (rule last_in)
    then show ?thesis
      using False lower_no_space [OF L d(3)] by simp
  qed
qed

lemma ends_clean_lower:
  assumes L: "lower_respects_space L" and e: "ends_clean s"
  shows "ends_clean (L s)"
proof (cases "s = []")
  case True
  then show ?thesis
    using lower_Nil_iff [OF L, of s] by (simp add: ends_clean_def)
next
  case False
  then show ?thesis
    using e lower_hd [OF L False] lower_last [OF L False]
    by (simp add: ends_clean_def split: if_splits)
qed

lemma run_free_no_blank: "\<forall>c \<in> set s. \<not> W c \<Longrightarrow> run_free W s"
  using run_free_other [of s W "[]"] by simp

lemma run_free_lower:
  assumes L: "lower_respects_space L"
  shows "run_free hspace_or_nbsp s \<Longrightarrow> run_free hspace_or_nbsp (L s)"
proof (induction s rule: length_induct)
  case (1 s)
  let ?W = hspace_or_nbsp
  show ?case
  proof (cases "\<exists>c \<in> set s. py_isspace c")
    case False
    then have "\<forall>c \<in> set (L s). \<not> py_isspace c"
      using lower_no_space [OF L, of s] by simp
    then have "\<forall>c \<in> set (L s). \<not> ?W c"
      using blank_is_space by blast
    then show ?thesis
      by (rule run_free_no_blank)
  next
    case True
    then obtain a w b where d: "s = a @ w # b" "py_isspace w" "\<forall>c \<in> set a. \<not> py_isspace c"
      using split_list_first_prop [of s py_isspace] by blast
    have a: "\<forall>c \<in> set a. \<not> ?W c"
      using d(3) blank_is_space by blast
    have La: "\<forall>c \<in> set (L a). \<not> ?W c"
      using lower_no_space [OF L d(3)] blank_is_space by blast
    have Ls: "L s = L a @ w # L b"
      using lower_split [OF L d(2)] d(1) by simp
    have wb: "run_free ?W (w # b)"
      using "1.prems" run_free_other [OF a, of "w # b"] d(1) by simp
    then have b: "run_free ?W b"
      by simp
    have "length b < length s"
      using d(1) by simp
    with "1.IH" b have Lb: "run_free ?W (L b)"
      by blast
    have "L b = [] \<or> \<not> ?W (hd (L b))" if w: "?W w"
    proof (cases "L b = []")
      case False
      then have nb: "b \<noteq> []"
        using lower_Nil_iff [OF L, of b] by auto
      then have "\<not> ?W (hd b)"
        using wb w by simp
      then have "\<not> ?W (hd (L b))"
        using lower_hd [OF L nb] blank_is_space by (auto split: if_splits)
      then show ?thesis ..
    qed simp
    then have "run_free ?W (w # L b)"
      using wb Lb by simp
    then show ?thesis
      using run_free_other [OF La, of "w # L b"] Ls by simp
  qed
qed

lemma collapse_runs_set: "c \<in> set (collapse_runs W s) \<Longrightarrow> c = 0x20 \<or> c \<in> set s"
  by (induction W s rule: collapse_runs.induct) (auto split: if_splits)

lemma lower_respects_space_ascii: "lower_respects_space ascii_lower"
proof -
  let ?f = "\<lambda>c::nat. if 0x41 \<le> c \<and> c \<le> 0x5A then c + 0x20 else c"
  have f_space: "py_isspace (?f c) \<longleftrightarrow> py_isspace c" for c
    by (auto simp: py_isspace_def)
  have f_fix: "?f w = w" if "py_isspace w" for w
    using that by (auto simp: py_isspace_def)
  have 1: "ascii_lower (ascii_lower s) = ascii_lower s" for s
    by (simp add: ascii_lower_def)
  have 2: "ascii_lower s = [] \<longleftrightarrow> s = []" for s
    by (simp add: ascii_lower_def)
  have 3: "ascii_lower (a @ w # b) = ascii_lower a @ w # ascii_lower b" if "py_isspace w" for a w b
    using f_fix [OF that] by (simp add: ascii_lower_def)
  have up: "\<not> py_isspace (x + 32)" if "65 \<le> x" "x \<le> 90" for x :: nat
    using that by (simp add: py_isspace_def)
  have 4: "\<forall>c \<in> set (ascii_lower s). \<not> py_isspace c" if "\<forall>c \<in> set s. \<not> py_isspace c" for s
    using that up by (auto simp: ascii_lower_def)
  show ?thesis
    unfolding lower_respects_space_def
  proof (intro conjI allI impI)
    fix s
    show "ascii_lower (ascii_lower s) = ascii_lower s"
      by (rule 1)
    show "ascii_lower s = [] \<longleftrightarrow> s = []"
      by (rule 2)
    show "\<forall>c \<in> set (ascii_lower s). \<not> py_isspace c" if "\<forall>c \<in> set s. \<not> py_isspace c"
      using that by (rule 4)
  next
    fix a w b
    assume "py_isspace w"
    then show "ascii_lower (a @ w # b) = ascii_lower a @ w # ascii_lower b"
      by (rule 3)
  qed
qed

text \<open>
  Claim C3. On a platform whose \<open>str.lower\<close> keeps whitespace in place, normalizing a
  normalized text changes nothing, and a text of whitespace characters only (the empty
  text among them) normalizes to the empty string.
\<close>

theorem normalize_text_idempotent:
  assumes L: "lower_respects_space (str_lower P)"
  shows "normalize_text P (Some (normalize_text P v)) = normalize_text P v
       \<and> ((\<forall>c \<in> set (str_or_empty v). py_isspace c) \<longrightarrow> normalize_text P v = [])"
proof
  let ?W = hspace_or_nbsp
  let ?z = "str_strip (collapse_runs ?W (str_or_empty v))"
  let ?y = "str_lower P ?z"
  have y: "normalize_text P v = ?y"
    by (simp add: normalize_text_def re_sub_replace_collapse)
  have "run_free ?W ?z"
    by (intro run_free_str_strip run_free_collapse_runs)
  then have "run_free ?W ?y"
    by (rule run_free_lower [OF L])
  then have c: "collapse_runs ?W ?y = ?y"
    by (rule run_free_fixed)
  have "ends_clean ?y"
    by (intro ends_clean_lower [OF L] ends_clean_str_strip)
  then have s: "str_strip ?y = ?y"
    by (rule ends_clean_fixed)
  have "normalize_text P (Some ?y) = str_lower P (str_strip (collapse_runs ?W ?y))"
    by (simp add: normalize_text_def re_sub_replace_collapse str_or_empty_def)
  also have "\<dots> = ?y"
    by (simp only: c s lower_idem [OF L])
  finally show "normalize_text P (Some (normalize_text P v)) = normalize_text P v"
    by (simp only: y)
  show "(\<forall>c \<in> set (str_or_empty v). py_isspace c) \<longrightarrow> normalize_text P v = []"
  proof
    assume a: "\<forall>c \<in> set (str_or_empty v). py_isspace c"
    have "py_isspace 0x20"
      by (simp add: py_isspace_def)
    with a have "\<forall>c \<in> set (collapse_runs ?W (str_or_empty v)). py_isspace c"
      using collapse_runs_set by blast
    then have d: "dropWhile py_isspace (collapse_runs ?W (str_or_empty v)) = []"
      by (simp only: dropWhile_eq_Nil_conv)
    have "?z = []"
      unfolding str_strip_def d by simp
    then show "normalize_text P v = []"
      using lower_Nil_iff [OF L, of "[]"] by (simp add: y)
  qed
qed

theorem normalize_text_idempotent_witness:
  "lower_respects_space (str_lower ref_platform)
   \<and> normalize_text ref_platform (Some [0x09, 0x41, 0x20, 0xA0, 0x42, 0x0A]) = [0x61, 0x20, 0x62]
   \<and> normalize_text ref_platform (Some [0x61, 0x20, 0x62]) = [0x61, 0x20, 0x62]
   \<and> list_all py_isspace (str_or_empty (Some [0x20, 0x0A, 0xA0]))
   \<and> normalize_text ref_platform (Some [0x20, 0x0A, 0xA0]) = []"
proof -
  have L: "lower_respects_space (str_lower ref_platform)"
    using lower_respects_space_ascii by (simp add: ref_platform_def)
  have v: "normalize_text ref_platform (Some [0x09, 0x41, 0x20, 0xA0, 0x42, 0x0A]) = [0x61, 0x20, 0x62]"
    by (simp add: normalize_text_def str_or_empty_def str_replace_nbsp_def is_hspace_def
        str_strip_def py_isspace_def ref_platform_def ascii_lower_def)
  have w: "\<forall>c \<in> set (str_or_empty (Some [0x20, 0x0A, 0xA0])). py_isspace c"
    by (simp add: str_or_empty_def py_isspace_def)
  have a: "list_all py_isspace (str_or_empty (Some [0x20, 0x0A, 0xA0]))"
    using w by (simp only: list_all_iff)
  show ?thesis
    using normalize_text_idempotent [OF L, of "Some [0x09, 0x41, 0x20, 0xA0, 0x42, 0x0A]"]
      normalize_text_idempotent [OF L, of "Some [0x20, 0x0A, 0xA0]"] L v w a
    by (simp only: simp_thms)
qed

section \<open>Properties of the scoring model\<close>

subsection \<open>Scoring: the additive model\<close>

lemma py_getitem_nat: "i < length xs \<Longrightarrow> py_getitem xs (int i) = Inr (xs ! i)"
  by (simp add: py_getitem_def)

lemma hash_trigram_bucket:
  assumes "0 < d" and "i + 2 < length n"
  shows "hash_trigram n (int i) d = Inr (int (bucket_of n d i))"
    and "bucket_of n d i < nat d"
proof -
  let ?h = "uint (fnv1a32 [n ! i, n ! (i + 1), n ! (i + 2)])"
  have a: "py_getitem n (int i) = Inr (n ! i)"
    using assms(2) by (simp add: py_getitem_nat)
  have b: "py_getitem n (int i + 1) = Inr (n ! (i + 1))"
    using assms(2) py_getitem_nat [of "i + 1" n] by (simp add: add.commute)
  have c: "py_getitem n (int i + 2) = Inr (n ! (i + 2))"
    using assms(2) py_getitem_nat [of "i + 2" n] by (simp add: add.commute)
  have "hash_trigram n (int i) d = Inr (?h mod d)"
    using assms(1) hash_loop_three [OF a b c] by (simp add: hash_trigram_def)
  moreover have "0 \<le> ?h mod d" "?h mod d < d"
    using assms(1) by simp_all
  ultimately show "hash_trigram n (int i) d = Inr (int (bucket_of n d i))"
    and "bucket_of n d i < nat d"
    by (simp_all add: bucket_of_def)
qed

lemma nb_loop_foldl:
  assumes "0 < d" and "int (length delta) = d" and "\<forall>i \<in> set js. i + 2 < length n"
  shows "nb_loop P n d delta (map int js) logit
           = Inr (foldl (fadd P) logit (map (\<lambda>i. delta ! bucket_of n d i) js))"
  using assms(3)
proof (induction js arbitrary: logit)
  case Nil
  show ?case by simp
next
  case (Cons j js)
  then have j: "j + 2 < length n"
    by simp
  have "bucket_of n d j < length delta"
    using hash_trigram_bucket(2) [OF assms(1) j] assms(2) by simp
  then have g: "py_getitem delta (int (bucket_of n d j)) = Inr (delta ! bucket_of n d j)"
    by (rule py_getitem_nat)
  show ?case
    using Cons hash_trigram_bucket(1) [OF assms(1) j] g by simp
qed

lemma compute_score_nb:
  assumes "0 < model_dim m"
    and "model_params m = NaiveBayes prior delta"
    and "int (length delta) = model_dim m"
    and "type_or_default (model_type m) \<noteq> lit ''logistic_hash3''"
  shows "compute_score P text m
           = Inr (spec_nb_score P (nat (max 200 (model_max_chars m))) (model_dim m) prior delta
                    (normalize_text P (Some text)))"
proof -
  let ?n = "normalize_text P (Some text)"
  let ?b = "nat (max 200 (model_max_chars m))"
  let ?limit = "min (int (length ?n)) (max 200 (model_max_chars m))"
  have d: "max 1 (model_dim m) = model_dim m"
    using assms(1) by simp
  have "nat (?limit - 2) = min (length ?n) ?b - 2"
    by linarith
  then have w: "window_starts ?limit = map int [0 ..< min (length ?n) ?b - 2]"
    by (simp only: window_starts_def)
  have r: "\<forall>i \<in> set [0 ..< min (length ?n) ?b - 2]. i + 2 < length ?n"
    by auto
  show ?thesis
  proof (cases "length ?n < 3")
    case True
    then show ?thesis
      by (simp add: compute_score_def spec_nb_score_def Let_def)
  next
    case False
    then show ?thesis
      using assms(2,4) nb_loop_foldl [OF assms(1,3) r, of P prior]
      by (simp add: compute_score_def spec_nb_score_def Let_def d w)
  qed
qed

lemma spec_nb_score_take:
  assumes "3 \<le> bound"
  shows "spec_nb_score P bound d prior delta (take bound n) = spec_nb_score P bound d prior delta n"
proof -
  have l: "min (length (take bound n)) bound = min (length n) bound"
    by simp
  have s: "length (take bound n) < 3 \<longleftrightarrow> length n < 3"
    using assms by auto
  have "bucket_of (take bound n) d i = bucket_of n d i" if "i < min (length n) bound - 2" for i
    using that by (simp add: bucket_of_def)
  then have "map (\<lambda>i. delta ! bucket_of (take bound n) d i) [0 ..< min (length n) bound - 2]
           = map (\<lambda>i. delta ! bucket_of n d i) [0 ..< min (length n) bound - 2]"
    by simp
  then show ?thesis
    by (simp only: spec_nb_score_def l s)
qed

section \<open>Properties of the reference arithmetic\<close>

lemma round_even_of_int: "round_even (of_int k) = k"
  by (simp add: round_even_def)

lemma round_even_ge: "of_int a \<le> v \<Longrightarrow> a \<le> round_even v"
proof -
  assume "of_int a \<le> v"
  then have "a \<le> \<lfloor>v\<rfloor>"
    by (simp add: le_floor_iff)
  then show ?thesis
    by (simp add: round_even_def Let_def)
qed

lemma round_even_le: "v \<le> of_int b \<Longrightarrow> round_even v \<le> b"
proof (cases "v = of_int \<lfloor>v\<rfloor>")
  case True
  assume "v \<le> of_int b"
  then have "\<lfloor>v\<rfloor> \<le> b"
    using True by linarith
  moreover have "round_even v = \<lfloor>v\<rfloor>"
    using True round_even_of_int [of "\<lfloor>v\<rfloor>"] by simp
  ultimately show ?thesis by simp
next
  case False
  assume "v \<le> of_int b"
  then have "of_int \<lfloor>v\<rfloor> < (of_int b :: real)"
    using False of_int_floor_le [of v] by linarith
  then have "\<lfloor>v\<rfloor> + 1 \<le> b"
    by simp
  moreover have "round_even v \<le> \<lfloor>v\<rfloor> + 1"
    by (simp add: round_even_def Let_def)
  ultimately show ?thesis by simp
qed

lemma round_even_low: "of_int a \<le> v \<Longrightarrow> v \<le> of_int a + 1 / 2 \<Longrightarrow> even a \<Longrightarrow> round_even v = a"
proof -
  assume v: "of_int a \<le> v" "v \<le> of_int a + 1 / 2" and a: "even a"
  then have "\<lfloor>v\<rfloor> = a"
    by (intro floor_unique) simp_all
  then show ?thesis
    using v a by (simp add: round_even_def Let_def)
qed

lemma round_even_high: "of_int a + 1 / 2 < v \<Longrightarrow> v \<le> of_int a + 1 \<Longrightarrow> round_even v = a + 1"
proof (cases "v = of_int a + 1")
  case True
  then have "v = of_int (a + 1)"
    by simp
  then show ?thesis
    by (simp only: round_even_of_int)
next
  case False
  assume v: "of_int a + 1 / 2 < v" "v \<le> of_int a + 1"
  then have "\<lfloor>v\<rfloor> = a"
    using False by (intro floor_unique) simp_all
  then show ?thesis
    using v by (simp add: round_even_def Let_def)
qed

lemma rnd_binade:
  assumes lo: "2 powr of_int E \<le> \<bar>x\<bar>" and hi: "\<bar>x\<bar> < 2 powr of_int (E + 1)"
    and E: "- 1022 \<le> E" "E \<le> 1022"
  shows "rnd x = Fin (of_int (round_even (x / 2 powr of_int (E - 52))) * 2 powr of_int (E - 52))"
proof -
  let ?u = "2 powr of_int (E - 52) :: real"
  let ?k = "round_even (x / ?u)"
  have u: "0 < ?u"
    by simp
  have x0: "x \<noteq> 0" "0 < \<bar>x\<bar>"
    using lo powr_gt_zero [of 2 "of_int E"] by auto
  have "\<lfloor>log 2 \<bar>x\<bar>\<rfloor> = E"
    using lo hi x0 by (simp add: floor_log_eq_powr_iff)
  then have e: "max \<lfloor>log 2 \<bar>x\<bar>\<rfloor> (- 1022) - 52 = E - 52"
    using E by simp
  have p: "2 powr of_int (E + 1) = (2 ^ 53) * ?u"
  proof -
    have "of_int (E + 1) = of_int (E - 52) + (53 :: real)"
      by simp
    then have "2 powr of_int (E + 1) = 2 powr of_int (E - 52) * 2 powr (53 :: real)"
      by (simp only: powr_add)
    then show ?thesis by simp
  qed
  have "\<bar>x / ?u\<bar> \<le> 2 ^ 53"
    using hi u unfolding p by (simp add: field_simps abs_mult)
  then have "- (2 ^ 53) \<le> x / ?u" "x / ?u \<le> 2 ^ 53"
    by linarith+
  then have "- (2 ^ 53) \<le> ?k" "?k \<le> 2 ^ 53"
    using round_even_ge [of "- (2 ^ 53)" "x / ?u"] round_even_le [of "x / ?u" "2 ^ 53"] by simp_all
  then have "\<bar>of_int ?k :: real\<bar> \<le> 2 ^ 53"
    by (simp add: abs_le_iff)
  then have "\<bar>of_int ?k * ?u\<bar> \<le> 2 ^ 53 * ?u"
    using u by (simp add: abs_mult)
  also have "\<dots> = 2 powr of_int (E + 1)"
    by (simp only: p)
  also have "\<dots> \<le> 2 powr 1023"
    using E by (intro powr_mono) simp_all
  also have "\<dots> < 2 ^ 1024"
    by simp
  finally have "\<not> 2 ^ 1024 \<le> \<bar>of_int ?k * ?u\<bar>"
    by simp
  then show ?thesis
    using x0(1) by (simp add: rnd_def Let_def e)
qed

lemma rnd_exact:
  assumes x: "x = of_int k * 2 powr of_int (E - 52)"
    and k: "2 ^ 52 \<le> \<bar>k\<bar>" "\<bar>k\<bar> < 2 ^ 53"
    and E: "- 1022 \<le> E" "E \<le> 1022"
  shows "rnd x = Fin x"
proof -
  let ?u = "2 powr of_int (E - 52) :: real"
  have u: "0 < ?u"
    by simp
  have a: "\<bar>x\<bar> = of_int \<bar>k\<bar> * ?u"
    by (simp add: x abs_mult)
  have p: "2 powr of_int E = (2 ^ 52) * ?u"
  proof -
    have "of_int E = of_int (E - 52) + (52 :: real)"
      by simp
    then have "2 powr of_int E = 2 powr of_int (E - 52) * 2 powr (52 :: real)"
      by (simp only: powr_add)
    then show ?thesis by simp
  qed
  have q: "2 powr of_int (E + 1) = (2 ^ 53) * ?u"
  proof -
    have "of_int (E + 1) = of_int (E - 52) + (53 :: real)"
      by simp
    then have "2 powr of_int (E + 1) = 2 powr of_int (E - 52) * 2 powr (53 :: real)"
      by (simp only: powr_add)
    then show ?thesis by simp
  qed
  have "(2 ^ 52 :: real) \<le> of_int \<bar>k\<bar>" "of_int \<bar>k\<bar> < (2 ^ 53 :: real)"
    using k by (simp_all flip: of_int_le_iff of_int_less_iff)
  then have lo: "2 powr of_int E \<le> \<bar>x\<bar>" and hi: "\<bar>x\<bar> < 2 powr of_int (E + 1)"
    unfolding a p q using u by simp_all
  have "x / ?u = of_int k"
    using u by (simp add: x)
  then show ?thesis
    using rnd_binade [OF lo hi E] by (simp add: round_even_of_int x)
qed

lemma rnd_one: "rnd 1 = Fin 1"
  using rnd_exact [of 1 "2 ^ 52" 0] by (simp add: powr_neg_numeral)

lemma rnd_two: "rnd 2 = Fin 2"
  using rnd_exact [of 2 "2 ^ 52" 1] by (simp add: powr_neg_numeral)

lemma rnd_half: "rnd (1 / 2) = Fin (1 / 2)"
  using rnd_exact [of "1 / 2" "2 ^ 52" "- 1"] by (simp add: powr_neg_numeral)

lemma rnd_m38: "rnd (- 38) = Fin (- 38)"
  using rnd_exact [of "- 38" "- 38 * 2 ^ 47" 5] by (simp add: powr_neg_numeral)

lemma rnd_one_plus_low:
  assumes "0 \<le> z" and "z \<le> 1 / 2 ^ 53"
  shows "rnd (1 + z) = Fin 1"
proof -
  have lo: "2 powr of_int 0 \<le> \<bar>1 + z\<bar>" and hi: "\<bar>1 + z\<bar> < 2 powr of_int (0 + 1)"
    using assms by simp_all
  have "round_even ((1 + z) / 2 powr of_int (0 - 52)) = 2 ^ 52"
    using assms by (intro round_even_low) (simp_all add: powr_neg_numeral field_simps)
  then show ?thesis
    using rnd_binade [OF lo hi] by (simp add: powr_neg_numeral)
qed

lemma rnd_half_plus_low:
  assumes "0 \<le> z" and "z \<le> 1 / 2 ^ 54"
  shows "rnd (1 / 2 + z) = Fin (1 / 2)"
proof -
  have lo: "2 powr of_int (- 1) \<le> \<bar>1 / 2 + z\<bar>" and hi: "\<bar>1 / 2 + z\<bar> < 2 powr of_int (- 1 + 1)"
    using assms by (simp_all add: powr_neg_numeral powr_minus)
  have "round_even ((1 / 2 + z) / 2 powr of_int (- 1 - 52)) = 2 ^ 52"
    using assms by (intro round_even_low) (simp_all add: powr_neg_numeral field_simps)
  then show ?thesis
    using rnd_binade [OF lo hi] by (simp add: powr_neg_numeral)
qed

lemma rnd_half_plus_high:
  assumes "1 / 2 ^ 54 < w" and "w \<le> 1 / 2 ^ 53"
  shows "rnd (1 / 2 + w) = Fin (1 / 2 + 1 / 2 ^ 53)"
proof -
  have lo: "2 powr of_int (- 1) \<le> \<bar>1 / 2 + w\<bar>" and hi: "\<bar>1 / 2 + w\<bar> < 2 powr of_int (- 1 + 1)"
    using assms by (simp_all add: powr_neg_numeral powr_minus)
  have "round_even ((1 / 2 + w) / 2 powr of_int (- 1 - 52)) = 2 ^ 52 + 1"
    using assms by (intro round_even_high) (simp_all add: powr_neg_numeral field_simps)
  then show ?thesis
    using rnd_binade [OF lo hi] by (simp add: powr_neg_numeral)
qed

lemma e_upper: "exp (1::real) \<le> 2727 / 1000"
proof -
  have "exp (1 / 256 :: real) \<le> 1 + 1 / 256 + (1 / 256)\<^sup>2"
    by (rule exp_bound) simp_all
  also have "\<dots> = 65793 / 65536"
    by (simp add: power2_eq_square)
  finally have "exp (1 / 256 :: real) ^ 16 \<le> (65793 / 65536) ^ 16"
    by (intro power_mono) simp_all
  also have "\<dots> \<le> 10647 / 10000"
    by (simp add: power_divide)
  finally have "(exp (1 / 256 :: real) ^ 16) ^ 16 \<le> (10647 / 10000) ^ 16"
    by (intro power_mono) simp_all
  also have "\<dots> \<le> 2727 / 1000"
    by (simp add: power_divide)
  finally have "exp (1 / 256 :: real) ^ 256 \<le> 2727 / 1000"
    by (simp flip: power_mult)
  moreover have "exp (1 / 256 :: real) ^ 256 = exp 1"
    using exp_of_nat_mult [of 256 "1 / 256 :: real"] by simp
  ultimately show ?thesis
    by simp
qed

lemma e_lower: "269 / 100 \<le> exp (1::real)"
proof -
  have "1 + 1 / 64 \<le> exp (1 / 64 :: real)"
    by (rule exp_ge_add_one_self)
  then have "(1 + 1 / 64 :: real) ^ 64 \<le> exp (1 / 64) ^ 64"
    by (intro power_mono) simp_all
  moreover have "exp (1 / 64 :: real) ^ 64 = exp 1"
    using exp_of_nat_mult [of 64 "1 / 64 :: real"] by simp
  moreover have "269 / 100 \<le> (1 + 1 / 64 :: real) ^ 64"
    by (simp add: power_divide)
  ultimately show ?thesis
    by simp
qed

lemma exp_m38_bounds:
  "(2 ^ 52 + 1) / 2 ^ 107 \<le> exp (- 38 :: real)" "exp (- 38 :: real) \<le> (2 ^ 53 - 1) / 2 ^ 107"
proof -
  have e: "exp (38 :: real) = exp 1 ^ 38"
    using exp_of_nat_mult [of 38 "1 :: real"] by simp
  have "exp (38 :: real) \<le> (2727 / 1000) ^ 38"
    unfolding e using e_upper by (intro power_mono) simp_all
  also have "\<dots> \<le> 2 ^ 107 / (2 ^ 52 + 1)"
    by (simp add: power_divide)
  finally have u: "exp (38 :: real) \<le> 2 ^ 107 / (2 ^ 52 + 1)" .
  have "2 ^ 107 / (2 ^ 53 - 1) \<le> (269 / 100 :: real) ^ 38"
    by (simp add: power_divide)
  also have "\<dots> \<le> exp (38 :: real)"
    unfolding e using e_lower by (intro power_mono) simp_all
  finally have l: "2 ^ 107 / (2 ^ 53 - 1) \<le> exp (38 :: real)" .
  have m: "exp (- 38 :: real) = 1 / exp 38"
    by (simp add: exp_minus divide_inverse)
  have p: "0 < exp (38 :: real)"
    by simp
  show "(2 ^ 52 + 1) / 2 ^ 107 \<le> exp (- 38 :: real)"
    unfolding m using u p by (simp add: field_simps)
  show "exp (- 38 :: real) \<le> (2 ^ 53 - 1) / 2 ^ 107"
    unfolding m using l p by (simp add: field_simps)
qed

lemma rnd_exp_m38:
  obtains k where "rnd (exp (- 38)) = Fin (of_int k / 2 ^ 107)" "2 ^ 52 + 1 \<le> k" "k \<le> 2 ^ 53 - 1"
proof -
  let ?y = "exp (- 38 :: real)"
  let ?k = "round_even (?y / 2 powr of_int (- 55 - 52))"
  have y: "(2 ^ 52 + 1) / 2 ^ 107 \<le> ?y" "?y \<le> (2 ^ 53 - 1) / 2 ^ 107"
    by (rule exp_m38_bounds)+
  have lo: "2 powr of_int (- 55) \<le> \<bar>?y\<bar>"
    using y(1) by (simp add: powr_neg_numeral)
  have hi: "\<bar>?y\<bar> < 2 powr of_int (- 55 + 1)"
    using y(2) by (simp add: powr_neg_numeral)
  have r: "rnd ?y = Fin (of_int ?k / 2 ^ 107)"
    using rnd_binade [OF lo hi] by (simp add: powr_neg_numeral)
  have q: "?y / 2 powr of_int (- 55 - 52) = ?y * 2 ^ 107"
    by (simp add: powr_neg_numeral)
  have a: "of_int (2 ^ 52 + 1) \<le> ?y * 2 ^ 107" and b: "?y * 2 ^ 107 \<le> of_int (2 ^ 53 - 1)"
    using y by (simp_all add: field_simps)
  have "2 ^ 52 + 1 \<le> ?k"
    unfolding q using a by (rule round_even_ge)
  moreover have "?k \<le> 2 ^ 53 - 1"
    unfolding q using b by (rule round_even_le)
  ultimately show ?thesis
    using r that by blast
qed

lemma sigmoid_zero: "sigmoid ref_platform (Fin 0) = Fin (1 / 2)"
  by (simp add: sigmoid_def ref_platform_def fle_def rnd_one rnd_two rnd_half)

lemma sigmoid_m38:
  obtains k where "sigmoid ref_platform (Fin (- 38)) = Fin (of_int k / 2 ^ 107)"
    "2 ^ 52 + 1 \<le> k" "k \<le> 2 ^ 53 - 1"
proof -
  obtain k where k: "rnd (exp (- 38)) = Fin (of_int k / 2 ^ 107)" "2 ^ 52 + 1 \<le> k" "k \<le> 2 ^ 53 - 1"
    by (rule rnd_exp_m38)
  define t :: real where "t = of_int k / 2 ^ 107"
  have kr: "(2 ^ 52 + 1 :: real) \<le> of_int k" "of_int k \<le> (2 ^ 53 - 1 :: real)"
    using k(2,3) by (simp_all flip: of_int_le_iff)
  have t: "0 \<le> t" "t \<le> 1 / 2 ^ 53"
    using kr by (simp_all add: t_def field_simps)
  have z: "fexp ref_platform (Fin (- 38)) = Fin t"
    using k(1) by (simp add: ref_platform_def t_def)
  have "rnd (1 + t) = Fin 1"
    using t by (rule rnd_one_plus_low)
  then have a: "fadd ref_platform (Fin 1) (Fin t) = Fin 1"
    by (simp add: ref_platform_def)
  have "rnd t = Fin t"
    unfolding t_def using k(2,3)
    by (intro rnd_exact [of _ k "- 55"]) (simp_all add: powr_neg_numeral)
  then have d: "fdiv ref_platform (Fin t) (Fin 1) = Fin t"
    by (simp add: ref_platform_def)
  have "sigmoid ref_platform (Fin (- 38)) = Fin t"
    by (simp add: sigmoid_def fle_def Let_def z a d)
  then show ?thesis
    using k(2,3) that [of k] by (simp add: t_def)
qed

section \<open>The additive score\<close>

lemma normalize_text_plain:
  assumes "\<forall>c \<in> set s. \<not> py_isspace c \<and> \<not> (0x41 \<le> c \<and> c \<le> 0x5A)"
  shows "normalize_text ref_platform (Some s) = s"
proof -
  have "\<forall>c \<in> set s. \<not> hspace_or_nbsp c"
    using assms blank_is_space by blast
  then have c: "collapse_runs hspace_or_nbsp s = s"
    by (intro run_free_fixed run_free_no_blank)
  have "ends_clean s"
  proof (cases "s = []")
    case True
    then show ?thesis by (simp add: ends_clean_def)
  next
    case False
    then have "hd s \<in> set s" "last s \<in> set s"
      by simp_all
    then show ?thesis
      using assms by (auto simp: ends_clean_def)
  qed
  then have t: "str_strip s = s"
    by (rule ends_clean_fixed)
  have l: "ascii_lower s = s"
    unfolding ascii_lower_def using assms by (intro map_idI) auto
  show ?thesis
    by (simp add: normalize_text_def re_sub_replace_collapse str_or_empty_def c t
        ref_platform_def l)
qed

lemma rnd_zero: "rnd 0 = Fin 0"
  by (simp add: rnd_def)

lemma compute_score_floor:
  assumes "0 < model_dim m"
    and "model_params m = NaiveBayes prior delta"
    and "int (length delta) = model_dim m"
    and "type_or_default (model_type m) \<noteq> lit ''logistic_hash3''"
  shows "compute_score P text m
           = Inr (spec_nb_score P (nat (max 200 (model_max_chars m))) (model_dim m) prior delta
                    (normalize_text P (Some text)))
       \<and> (\<forall>text'. take (nat (max 200 (model_max_chars m))) (normalize_text P (Some text'))
                    = take (nat (max 200 (model_max_chars m))) (normalize_text P (Some text))
                  \<longrightarrow> compute_score P text' m = compute_score P text m)"
proof (intro conjI allI impI)
  let ?b = "nat (max 200 (model_max_chars m))"
  show "compute_score P text m
           = Inr (spec_nb_score P ?b (model_dim m) prior delta (normalize_text P (Some text)))"
    using assms by (rule compute_score_nb)
  fix text'
  assume t: "take ?b (normalize_text P (Some text')) = take ?b (normalize_text P (Some text))"
  have b: "3 \<le> ?b"
    by simp
  have "spec_nb_score P ?b (model_dim m) prior delta (normalize_text P (Some text'))
      = spec_nb_score P ?b (model_dim m) prior delta (normalize_text P (Some text))"
    using spec_nb_score_take [OF b, of P "model_dim m" prior delta "normalize_text P (Some text')"]
      spec_nb_score_take [OF b, of P "model_dim m" prior delta "normalize_text P (Some text)"] t
    by simp
  then show "compute_score P text' m = compute_score P text m"
    using compute_score_nb [OF assms, of P "text'"] compute_score_nb [OF assms, of P "text"]
    by simp
qed

text \<open>
  Claim C5. For an additive model of the file format, with \<open>dim > 0\<close>, \<open>len(delta) = dim\<close>
  and \<open>max_chars \<ge> 200\<close>, \<open>compute_score\<close> returns 0.5 for a normalized text of fewer than
  three characters and otherwise the sigmoid of the prior plus the \<open>delta\<close> of the bucket of
  every window, each occurrence counted, over the offsets in
  \<open>[0, min(len, max_chars) - 2)\<close>; a text that agrees with another on the first \<open>max_chars\<close>
  normalized characters has the same score, so the characters beyond \<open>max_chars\<close> have no
  influence.
\<close>

theorem compute_score_additive:
  assumes "0 < model_dim m"
    and "200 \<le> model_max_chars m"
    and "model_params m = NaiveBayes prior delta"
    and "int (length delta) = model_dim m"
    and "type_or_default (model_type m) \<noteq> lit ''logistic_hash3''"
  shows "compute_score P text m
           = Inr (spec_nb_score P (nat (model_max_chars m)) (model_dim m) prior delta
                    (normalize_text P (Some text)))
       \<and> (\<forall>text'. take (nat (model_max_chars m)) (normalize_text P (Some text'))
                    = take (nat (model_max_chars m)) (normalize_text P (Some text))
                  \<longrightarrow> compute_score P text' m = compute_score P text m)"
proof -
  have "max 200 (model_max_chars m) = model_max_chars m"
    using assms(2) by simp
  then show ?thesis
    using compute_score_floor [OF assms(1,3,4,5), of P "text"] by simp
qed

lemma normalize_long_text: "0x61 \<le> c \<Longrightarrow> c \<le> 0x7A \<Longrightarrow> normalize_text ref_platform (Some (long_text c)) = long_text c"
  by (rule normalize_text_plain) (auto simp: long_text_def py_isspace_def)

theorem compute_score_additive_witness:
  "0 < model_dim capped_model
   \<and> 200 \<le> model_max_chars capped_model
   \<and> model_params capped_model = NaiveBayes (Fin 0) [Fin 0, Fin (- 38)]
   \<and> int (length [Fin 0, Fin (- 38)]) = model_dim capped_model
   \<and> type_or_default (model_type capped_model) \<noteq> lit ''logistic_hash3''
   \<and> compute_score ref_platform (long_text 0x62) capped_model
       = Inr (spec_nb_score ref_platform 200 2 (Fin 0) [Fin 0, Fin (- 38)] (long_text 0x62))
   \<and> take 200 (normalize_text ref_platform (Some (long_text 0x63)))
       = take 200 (normalize_text ref_platform (Some (long_text 0x62)))
   \<and> compute_score ref_platform (long_text 0x63) capped_model
       = compute_score ref_platform (long_text 0x62) capped_model"
proof -
  have 1: "0 < model_dim capped_model"
    and 2: "model_params capped_model = NaiveBayes (Fin 0) [Fin 0, Fin (- 38)]"
    and 3: "int (length [Fin 0, Fin (- 38)]) = model_dim capped_model"
    and 4: "type_or_default (model_type capped_model) \<noteq> lit ''logistic_hash3''"
    by (simp_all add: capped_model_def type_or_default_def lit_def)
  have 5: "200 \<le> model_max_chars capped_model"
    by (simp add: capped_model_def)
  have b: "nat (model_max_chars capped_model) = 200" "model_dim capped_model = 2"
    by (simp_all add: capped_model_def)
  have n: "normalize_text ref_platform (Some (long_text 0x62)) = long_text 0x62"
    "normalize_text ref_platform (Some (long_text 0x63)) = long_text 0x63"
    by (simp_all add: normalize_long_text)
  have t: "take 200 (normalize_text ref_platform (Some (long_text 0x63)))
       = take 200 (normalize_text ref_platform (Some (long_text 0x62)))"
    unfolding n by (simp add: long_text_def)
  note c = compute_score_additive [OF 1 5 2 3 4, of ref_platform "long_text 0x62", unfolded b]
  have s: "compute_score ref_platform (long_text 0x62) capped_model
       = Inr (spec_nb_score ref_platform 200 2 (Fin 0) [Fin 0, Fin (- 38)] (long_text 0x62))"
    using c unfolding n by (rule conjunct1)
  have e: "compute_score ref_platform (long_text 0x63) capped_model
       = compute_score ref_platform (long_text 0x62) capped_model"
    using c t by blast
  show ?thesis
    using 1 5 2 3 4 s t e by (intro conjI)
qed

section \<open>Properties of the evaluation engine\<close>

subsection \<open>Consistency of the counters\<close>

lemma predict_judge_cases:
  "predict_judge s h a = ''Human'' \<or> predict_judge s h a = ''Unknown'' \<or> predict_judge s h a = ''AI''"
  by (simp add: predict_judge_def)

lemma count_row_consistent:
  assumes "pred = ''Human'' \<or> pred = ''Unknown'' \<or> pred = ''AI''"
    and "result_consistent acc"
  shows "result_consistent (count_row P acc j gt pred score)"
  using assms by (auto simp: result_consistent_def count_row_def b2i_def)

lemma eval_row_consistent:
  assumes "eval_row P a m mja acc row = Inr acc'" and "result_consistent acc"
  shows "result_consistent acc'"
  using assms count_row_consistent [OF predict_judge_cases]
  by (auto simp: eval_row_def Let_def split: sum.splits)

lemma eval_rows_consistent:
  "eval_rows P a m mja rows acc = Inr r \<Longrightarrow> result_consistent acc \<Longrightarrow> result_consistent r"
proof (induction rows arbitrary: acc)
  case Nil
  then show ?case by simp
next
  case (Cons row rows)
  then show ?case
    by (auto split: sum.splits dest: eval_row_consistent)
qed

lemma zero_result_consistent: "result_consistent zero_result"
  by (simp add: result_consistent_def zero_result_def)

lemma evaluate_valid_rows_consistent:
  "evaluate_valid_rows P G rows a = Inr part \<Longrightarrow> result_consistent part"
  by (auto simp: evaluate_valid_rows_def Let_def split: option.splits
      intro: eval_rows_consistent [OF _ zero_result_consistent])

lemma init_state_consistent: "state_consistent init_state"
  by (simp add: state_consistent_def init_state_def counter_get_def)

lemma merge_partial_result_consistent:
  assumes "state_consistent state" and "result_consistent part"
  shows "state_consistent (merge_partial_result P state part)"
  using assms
  by (simp add: state_consistent_def result_consistent_def merge_partial_result_def
      counter_get_def counter_add_def)

text \<open>
  Claim C10. Every result that \<open>evaluate_valid_rows\<close> returns is consistent, the initial
  state is consistent, and merging such a result into a consistent state gives a consistent
  state.
\<close>

theorem counters_consistent:
  assumes "evaluate_valid_rows P G rows a = Inr part"
  shows "result_consistent part \<and> state_consistent init_state
       \<and> (state_consistent state \<longrightarrow> state_consistent (merge_partial_result P state part))"
  using evaluate_valid_rows_consistent [OF assms] init_state_consistent
    merge_partial_result_consistent
  by blast

lemma not_japanese_ascii:
  assumes "s \<noteq> []" and "\<forall>c \<in> set s. c < 0x3040"
  shows "is_likely_japanese_text P s = False"
proof -
  have "\<forall>c \<in> set (take 2400 s). c < 0x3040"
    using assms(2) by (meson in_set_takeD)
  then have "filter JP_CHAR (take 2400 s) = []"
    by (auto simp: filter_empty_conv JP_CHAR_def)
  then show ?thesis
    using assms(1) by (simp add: is_likely_japanese_text_def Let_def)
qed

lemma normalize_a: "normalize_text ref_platform (Some (lit ''a'')) = lit ''a''"
  by (rule normalize_text_plain) (simp add: lit_def py_isspace_def)

lemma score_short: "compute_score ref_platform (lit ''a'') steep_model = Inr (Fin (1 / 2))"
  by (simp add: compute_score_def normalize_a Let_def) (simp add: lit_def)

lemma evaluate_short:
  "evaluate_valid_rows ref_platform no_globals [short_row] steep_args
     = Inr (count_row ref_platform zero_result False ''AI'' ''Unknown'' (Fin (1 / 2)))"
proof -
  have j: "is_likely_japanese_text ref_platform (lit ''a'') = False"
    by (rule not_japanese_ascii) (simp_all add: lit_def)
  have p: "predict_judge (Fin (1 / 2)) DEFAULT_HUMAN_THRESHOLD DEFAULT_AI_THRESHOLD = ''Unknown''"
    by (simp add: predict_judge_def DEFAULT_HUMAN_THRESHOLD_def DEFAULT_AI_THRESHOLD_def)
  show ?thesis
    by (simp add: evaluate_valid_rows_def steep_args_def short_row_def eval_row_def Let_def
        no_globals_def j score_short p)
qed

theorem counters_consistent_witness:
  "evaluate_valid_rows ref_platform no_globals [short_row] steep_args
     = Inr (count_row ref_platform zero_result False ''AI'' ''Unknown'' (Fin (1 / 2)))
   \<and> result_consistent (count_row ref_platform zero_result False ''AI'' ''Unknown'' (Fin (1 / 2)))
   \<and> state_consistent init_state
   \<and> state_consistent
       (merge_partial_result ref_platform init_state
          (count_row ref_platform zero_result False ''AI'' ''Unknown'' (Fin (1 / 2))))"
  using counters_consistent [OF evaluate_short, of init_state] evaluate_short
  by blast

subsection \<open>Addition of counters\<close>

lemma add_counts_assoc: "add_counts (add_counts p q) r = add_counts p (add_counts q r)"
  by (simp add: add_counts_def)

lemma add_counts_commute: "add_counts p q = add_counts q p"
  by (simp add: add_counts_def)

lemma add_counts_zero_right [simp]: "add_counts p (add_counts zero_result zero_result) = add_counts p zero_result"
  by (simp add: add_counts_def zero_result_def)

lemma add_counts_inner_right [simp]: "add_counts p (add_counts q zero_result) = add_counts p q"
  by (simp add: add_counts_def zero_result_def)

lemma add_counts_inner_left [simp]: "add_counts (add_counts p zero_result) q = add_counts p q"
  by (simp add: add_counts_def zero_result_def)

lemma add_counts_inner_zero [simp]: "add_counts p (add_counts zero_result q) = add_counts p q"
  by (simp add: add_counts_def zero_result_def)

lemma add_counts_outer [simp]: "add_counts (add_counts p q) zero_result = add_counts p q"
  by (simp add: add_counts_def zero_result_def)

lemma oadd_assoc: "oadd (oadd x y) z = oadd x (oadd y z)"
  by (cases x; cases y; cases z) (simp_all add: add_counts_assoc)

lemma oadd_commute: "oadd x y = oadd y x"
  by (cases x; cases y) (simp_all add: add_counts_commute)

lemma oadd_left_commute: "oadd x (oadd y z) = oadd y (oadd x z)"
  by (metis oadd_assoc oadd_commute)

lemma oadd_None [simp]: "oadd None y = None" "oadd x None = None"
  by (cases x; simp)+

lemma oadd_ints_left [simp]: "oadd (map_option ints x) y = oadd x y"
  by (cases x; cases y) (simp_all add: ints_def)

lemma oadd_ints_right [simp]: "oadd x (map_option ints y) = oadd x y"
  by (cases x; cases y) (simp_all add: ints_def)

lemma ints_oadd [simp]: "map_option ints (oadd x y) = oadd x y"
  by (cases x; cases y) (simp_all add: ints_def)

lemma oadd_zero [simp]: "oadd x (Some (add_counts zero_result zero_result)) = map_option ints x"
  by (cases x) (simp_all add: ints_def)

subsection \<open>The counters of a list of rows\<close>

lemma count_row_ints:
  "ints (count_row P acc j gt pred s) = add_counts acc (count_row P zero_result j gt pred s)"
  by (simp add: ints_def add_counts_def count_row_def zero_result_def)

lemma eval_row_ints:
  "map_option ints (ok (eval_row P a m mja acc row))
     = oadd (Some acc) (ok (eval_row P a m mja zero_result row))"
  by (simp add: eval_row_def Let_def ok_def count_row_ints split: sum.splits)

lemma tally_rows_ints [simp]: "map_option ints (tally_rows P a m mja rows) = tally_rows P a m mja rows"
  by (cases rows) (simp_all add: ints_def)

lemma eval_rows_tally:
  "map_option ints (ok (eval_rows P a m mja rows acc)) = oadd (Some acc) (tally_rows P a m mja rows)"
proof (induction rows arbitrary: acc)
  case Nil
  show ?case by (simp add: ok_def ints_def)
next
  case (Cons row rows)
  show ?case
  proof (cases "eval_row P a m mja acc row")
    case (Inl e)
    then have "ok (eval_row P a m mja zero_result row) = None"
      using eval_row_ints [of P a m mja acc row] by (cases "ok (eval_row P a m mja zero_result row)") (simp_all add: ok_def)
    then show ?thesis
      using Inl by (simp add: ok_def)
  next
    case (Inr acc1)
    then obtain d where d: "ok (eval_row P a m mja zero_result row) = Some d" "ints acc1 = add_counts acc d"
      using eval_row_ints [of P a m mja acc row] by (cases "ok (eval_row P a m mja zero_result row)") (simp_all add: ok_def)
    have "map_option ints (ok (eval_rows P a m mja (row # rows) acc))
        = oadd (Some acc1) (tally_rows P a m mja rows)"
      using Inr Cons.IH [of acc1] by simp
    also have "\<dots> = oadd (map_option ints (Some acc1)) (tally_rows P a m mja rows)"
      by (simp only: oadd_ints_left)
    also have "\<dots> = oadd (oadd (Some acc) (Some d)) (tally_rows P a m mja rows)"
      by (simp add: d(2))
    also have "\<dots> = oadd (Some acc) (tally_rows P a m mja (row # rows))"
      by (simp only: oadd_assoc tally_rows.simps d(1))
    finally show ?thesis .
  qed
qed

lemma tally_rows_append:
  "tally_rows P a m mja (xs @ ys) = oadd (tally_rows P a m mja xs) (tally_rows P a m mja ys)"
proof (induction xs)
  case Nil
  have "oadd (Some (add_counts zero_result zero_result)) (tally_rows P a m mja ys)
      = map_option ints (tally_rows P a m mja ys)"
    by (subst oadd_commute) (rule oadd_zero)
  then show ?case by simp
next
  case (Cons x xs)
  then show ?case by (simp add: oadd_assoc)
qed

lemma tally_rows_concat:
  "tally_rows P a m mja (concat chunks)
     = foldr oadd (map (tally_rows P a m mja) chunks) (Some (add_counts zero_result zero_result))"
  by (induction chunks) (simp_all add: tally_rows_append)

text \<open>The thresholds are all that a row reads from the arguments.\<close>

lemma eval_row_args:
  assumes "human_threshold a = human_threshold b" and "ai_threshold a = ai_threshold b"
    and "human_threshold_ja a = human_threshold_ja b" and "ai_threshold_ja a = ai_threshold_ja b"
  shows "eval_row P a m mja acc row = eval_row P b m mja acc row"
  unfolding eval_row_def assms by (rule refl)

lemma tally_rows_args:
  assumes "human_threshold a = human_threshold b" and "ai_threshold a = ai_threshold b"
    and "human_threshold_ja a = human_threshold_ja b" and "ai_threshold_ja a = ai_threshold_ja b"
  shows "tally_rows P a m mja rows = tally_rows P b m mja rows"
  by (induction rows) (simp_all add: eval_row_args [OF assms])

lemma evaluate_single_tally:
  "map_option ints (ok (evaluate_valid_rows P no_globals rows (single_args m mja h t hj tj)))
     = tally_rows P (single_args m mja h t hj tj) m mja rows"
proof -
  have "map_option ints (ok (evaluate_valid_rows P no_globals rows (single_args m mja h t hj tj)))
      = oadd (Some zero_result) (tally_rows P (single_args m mja h t hj tj) m mja rows)"
    by (cases mja) (simp_all add: evaluate_valid_rows_def single_args_def no_globals_def
        eval_rows_tally)
  also have "\<dots> = map_option ints (tally_rows P (single_args m mja h t hj tj) m mja rows)"
    by (cases "tally_rows P (single_args m mja h t hj tj) m mja rows")
      (simp_all add: ints_def add_counts_commute)
  finally show ?thesis by simp
qed

lemma evaluate_pool_tally:
  "map_option ints (ok (evaluate_valid_rows P (pool_globals m mja) rows (pool_args h t hj tj)))
     = tally_rows P (single_args m mja h t hj tj) m mja rows"
proof -
  have a: "tally_rows P (pool_args h t hj tj) m mja rows
      = tally_rows P (single_args m mja h t hj tj) m mja rows"
    by (rule tally_rows_args) (simp_all add: pool_args_def single_args_def)
  have "map_option ints (ok (evaluate_valid_rows P (pool_globals m mja) rows (pool_args h t hj tj)))
      = oadd (Some zero_result) (tally_rows P (pool_args h t hj tj) m mja rows)"
    by (simp add: evaluate_valid_rows_def pool_args_def pool_globals_def eval_rows_tally)
  also have "\<dots> = map_option ints (tally_rows P (pool_args h t hj tj) m mja rows)"
    by (cases "tally_rows P (pool_args h t hj tj) m mja rows")
      (simp_all add: ints_def add_counts_commute)
  finally show ?thesis by (simp add: a)
qed

subsection \<open>Merging task results\<close>

lemma state_tally_merge:
  "state_tally (merge_partial_result P st p) = add_counts (state_tally st) p"
  by (simp add: state_tally_def merge_partial_result_def add_counts_def counter_get_def
      counter_add_def)

lemma st_skipped_merge [simp]: "st_skipped (merge_partial_result P st p) = st_skipped st"
  by (simp add: merge_partial_result_def)

lemma state_tally_skipped [simp]: "state_tally (st\<lparr>st_skipped := x\<rparr>) = state_tally st"
  by (simp add: state_tally_def)

lemma ints_state_tally [simp]: "add_counts (state_tally st) zero_result = state_tally st"
  by (simp add: state_tally_def add_counts_def zero_result_def)

lemma futures_tally_Nil [simp]: "futures_tally [] = Some (add_counts zero_result zero_result)"
  by (simp add: futures_tally_def)

lemma futures_tally_Cons [simp]: "futures_tally (f # fs) = oadd (ok f) (futures_tally fs)"
  by (simp add: futures_tally_def)

lemma futures_tally_ints [simp]: "map_option ints (futures_tally fs) = futures_tally fs"
  by (cases fs) (simp_all add: ints_def)

lemma futures_tally_append:
  "futures_tally (fs @ gs) = oadd (futures_tally fs) (futures_tally gs)"
proof (induction fs)
  case Nil
  have "oadd (Some (add_counts zero_result zero_result)) (futures_tally gs)
      = map_option ints (futures_tally gs)"
    by (subst oadd_commute) (rule oadd_zero)
  then show ?case by simp
next
  case (Cons f fs)
  then show ?case by (simp add: oadd_assoc)
qed

lemma futures_tally_rotate: "futures_tally (as @ f # bs) = futures_tally (f # as @ bs)"
  by (induction as) (simp_all add: oadd_left_commute)

lemma futures_tally_mset: "mset fs = mset gs \<Longrightarrow> futures_tally fs = futures_tally gs"
proof (induction fs arbitrary: gs)
  case Nil
  then show ?case by simp
next
  case (Cons f fs)
  then have "f \<in> set gs"
    by (metis list.set_intros(1) mset_eq_setD)
  then obtain as bs where gs: "gs = as @ f # bs"
    by (meson split_list)
  with Cons.prems have "mset fs = mset (as @ bs)"
    by simp
  then have "futures_tally fs = futures_tally (as @ bs)"
    by (rule Cons.IH)
  then show ?case
    by (simp add: gs futures_tally_rotate)
qed

lemma merge_results_tally:
  "map_option (\<lambda>s. (state_tally s, st_skipped s)) (ok (merge_results P st futs))
     = map_option (\<lambda>t. (add_counts (state_tally st) t, st_skipped st)) (futures_tally futs)"
proof (induction futs arbitrary: st)
  case Nil
  show ?case by (simp add: ok_def)
next
  case (Cons f futs)
  show ?case
  proof (cases f)
    case (Inl e)
    then show ?thesis by (simp add: ok_def)
  next
    case (Inr p)
    then show ?thesis
      using Cons.IH [of "merge_partial_result P st p"]
      by (cases "futures_tally futs") (simp_all add: ok_def state_tally_merge add_counts_assoc)
  qed
qed

lemma mset_remove_nth: "i < length xs \<Longrightarrow> add_mset (xs ! i) (mset (remove_nth i xs)) = mset xs"
proof -
  assume "i < length xs"
  then have "xs = take i xs @ xs ! i # drop (Suc i) xs"
    by (rule id_take_nth_drop)
  then have "mset xs = mset (take i xs @ xs ! i # drop (Suc i) xs)"
    by simp
  then show ?thesis
    by (simp add: remove_nth_def)
qed

lemma mset_shuffle: "mset (shuffle cs xs) = mset xs"
proof (induction cs xs rule: shuffle.induct)
  case (3 c cs x xs)
  have "c mod length (x # xs) < length (x # xs)"
    by simp
  then show ?case
    using 3 mset_remove_nth [of "c mod length (x # xs)" "x # xs"] by simp
qed simp_all

lemma futures_tally_shuffle [simp]: "futures_tally (shuffle cs futs) = futures_tally futs"
  by (rule futures_tally_mset) (rule mset_shuffle)

lemma wait_first_completed_tally:
  assumes "wait_first_completed cs pending = (done, not_done)"
  shows "oadd (futures_tally done) (futures_tally not_done) = futures_tally pending"
proof -
  have "done @ not_done = shuffle (tl cs) pending"
    using assms by (auto simp: wait_first_completed_def Let_def)
  then show ?thesis
    by (metis futures_tally_append futures_tally_shuffle)
qed

subsection \<open>The loops of the evaluation as functions of the filter results\<close>

lemma seq_loop_steps:
  "seq_loop P a k batches st acc = seq_steps P a (select_batches P k batches acc) st"
proof (induction batches arbitrary: st acc)
  case Nil
  show ?case by simp
next
  case (Cons rows batches)
  obtain v acc' s stop where sel: "select_valid_rows P rows k acc = (v, acc', s, stop)"
    by (metis prod_cases4)
  show ?case
    by (cases stop) (simp_all add: sel Cons.IH Let_def split: sum.splits)
qed

lemma par_loop_steps:
  "par_loop P a G k mi batches sched st acc pending
     = par_steps P a G mi (select_batches P k batches acc) sched st pending"
proof (induction batches arbitrary: st acc pending sched)
  case Nil
  show ?case by simp
next
  case (Cons rows batches)
  obtain v acc' s stop where sel: "select_valid_rows P rows k acc = (v, acc', s, stop)"
    by (metis prod_cases4)
  show ?case
    by (cases stop) (simp_all add: sel Cons.IH Let_def split: sum.splits prod.splits)
qed

lemma seq_steps_tally:
  fixes m mja h t hj tj
  defines "a \<equiv> single_args m mja h t hj tj"
  shows "map_option (\<lambda>s. (state_tally s, st_skipped s)) (ok (seq_steps P a xs st))
     = map_option (\<lambda>c. (add_counts (state_tally st) c, st_skipped st + sum_list (map snd xs)))
         (tally_rows P a m mja (concat (map fst xs)))"
proof (induction xs arbitrary: st)
  case Nil
  show ?case by (simp add: ok_def)
next
  case (Cons x xs)
  obtain v s where x: "x = (v, s)"
    by (cases x)
  let ?st1 = "st\<lparr>st_skipped := st_skipped st + s\<rparr>"
  let ?rest = "tally_rows P a m mja (concat (map fst xs))"
  show ?case
  proof (cases "v = []")
    case True
    have "oadd (Some (add_counts zero_result zero_result)) ?rest = ?rest"
      by (subst oadd_commute) simp
    then show ?thesis
      using Cons.IH [of ?st1] by (simp add: x True tally_rows_append add.assoc)
  next
    case False
    have ev: "map_option ints (ok (evaluate_valid_rows P no_globals v a)) = tally_rows P a m mja v"
      unfolding a_def by (rule evaluate_single_tally)
    show ?thesis
    proof (cases "evaluate_valid_rows P no_globals v a")
      case (Inl e)
      then have "tally_rows P a m mja v = None"
        using ev by (simp add: ok_def)
      then show ?thesis
        using Inl False by (simp add: x ok_def tally_rows_append)
    next
      case (Inr part)
      then have tv: "tally_rows P a m mja v = Some (ints part)"
        using ev by (simp add: ok_def)
      have "map_option (\<lambda>s. (state_tally s, st_skipped s)) (ok (seq_steps P a (x # xs) st))
          = map_option (\<lambda>c. (add_counts (add_counts (state_tally st) part) c,
                               st_skipped st + s + sum_list (map snd xs))) ?rest"
        using Inr False Cons.IH [of "merge_partial_result P ?st1 part"]
        by (simp add: x state_tally_merge)
      also have "\<dots> = map_option (\<lambda>c. (add_counts (state_tally st) c,
                               st_skipped st + sum_list (map snd (x # xs))))
                          (oadd (Some (ints part)) ?rest)"
        by (cases ?rest) (simp_all add: x add_counts_assoc ints_def add.assoc)
      finally show ?thesis
        by (simp add: x tally_rows_append tv)
    qed
  qed
qed

lemma par_steps_tally:
  fixes m mja h t hj tj
  defines "a \<equiv> single_args m mja h t hj tj"
    and "pa \<equiv> pool_args h t hj tj" and "G \<equiv> pool_globals m mja"
  shows "map_option (\<lambda>s. (state_tally s, st_skipped s)) (ok (par_steps P pa G mi xs sched st pending))
     = map_option (\<lambda>c. (add_counts (state_tally st) c, st_skipped st + sum_list (map snd xs)))
         (oadd (futures_tally pending) (tally_rows P a m mja (concat (map fst xs))))"
proof (induction xs arbitrary: st pending sched)
  case Nil
  show ?case
    using merge_results_tally [of P st "shuffle (next_choices sched) pending"]
    by (simp add: ok_def)
next
  case (Cons x xs)
  obtain v s where x: "x = (v, s)"
    by (cases x)
  let ?st1 = "st\<lparr>st_skipped := st_skipped st + s\<rparr>"
  let ?rest = "tally_rows P a m mja (concat (map fst xs))"
  let ?p1 = "if v \<noteq> [] then pending @ [evaluate_valid_rows P G v pa] else pending"
  have ev: "map_option ints (ok (evaluate_valid_rows P G v pa)) = tally_rows P a m mja v"
    unfolding a_def pa_def G_def by (rule evaluate_pool_tally)
  have p1: "oadd (futures_tally ?p1) ?rest
      = oadd (futures_tally pending) (tally_rows P a m mja (concat (map fst (x # xs))))"
  proof (cases "v = []")
    case True
    have "oadd (Some (add_counts zero_result zero_result)) ?rest = ?rest"
      by (subst oadd_commute) simp
    then show ?thesis
      by (simp add: x True tally_rows_append)
  next
    case False
    have "futures_tally ?p1 = oadd (futures_tally pending) (tally_rows P a m mja v)"
      using False ev [symmetric] by (simp add: futures_tally_append)
    then show ?thesis
      by (simp add: x tally_rows_append oadd_assoc)
  qed
  show ?case
  proof (cases "mi \<le> length ?p1")
    case False
    then have "par_steps P pa G mi (x # xs) sched st pending = par_steps P pa G mi xs sched ?st1 ?p1"
      by (simp add: x Let_def)
    then show ?thesis
      using Cons.IH [of sched ?st1 ?p1] by (simp add: p1 x add.assoc)
  next
    case True
    obtain dn nd where w: "wait_first_completed (next_choices sched) ?p1 = (dn, nd)"
      by (cases "wait_first_completed (next_choices sched) ?p1")
    have wt: "oadd (futures_tally dn) (futures_tally nd) = futures_tally ?p1"
      using w by (rule wait_first_completed_tally)
    have step: "par_steps P pa G mi (x # xs) sched st pending
        = (case merge_results P ?st1 dn of
             Inl e \<Rightarrow> Inl e
           | Inr st2 \<Rightarrow> par_steps P pa G mi xs (tl sched) st2 nd)"
      using True w by (simp add: x Let_def)
    note mr = merge_results_tally [of P ?st1 dn]
    show ?thesis
    proof (cases "merge_results P ?st1 dn")
      case (Inl e)
      then have "futures_tally dn = None"
        using mr by (simp add: ok_def)
      then have "futures_tally ?p1 = None"
        using wt by simp
      then have "oadd (futures_tally pending) (tally_rows P a m mja (concat (map fst (x # xs)))) = None"
        using p1 by simp
      then show ?thesis
        using Inl step by (simp add: ok_def)
    next
      case (Inr st2)
      then obtain d where d: "futures_tally dn = Some d"
        "state_tally st2 = add_counts (state_tally st) d" "st_skipped st2 = st_skipped st + s"
        using mr by (cases "futures_tally dn") (simp_all add: ok_def)
      have "map_option (\<lambda>s. (state_tally s, st_skipped s)) (ok (par_steps P pa G mi (x # xs) sched st pending))
          = map_option (\<lambda>c. (add_counts (add_counts (state_tally st) d) c,
                               st_skipped st + s + sum_list (map snd xs)))
              (oadd (futures_tally nd) ?rest)"
        using Inr step Cons.IH [of "tl sched" st2 nd] by (simp add: d)
      also have "\<dots> = map_option (\<lambda>c. (add_counts (state_tally st) c,
                               st_skipped st + sum_list (map snd (x # xs))))
                          (oadd (Some d) (oadd (futures_tally nd) ?rest))"
        by (cases "oadd (futures_tally nd) ?rest") (simp_all add: x add_counts_assoc add.assoc)
      also have "oadd (Some d) (oadd (futures_tally nd) ?rest) = oadd (futures_tally ?p1) ?rest"
        by (simp only: oadd_assoc [symmetric] d(1) [symmetric] wt)
      finally show ?thesis
        by (simp only: p1)
    qed
  qed
qed

subsection \<open>The filter\<close>

lemma select_loop_shift:
  "select_loop P k rows valid acc sk
     = (case select_loop P k rows [] acc 0 of
          (v, acc', s, stop) \<Rightarrow> (valid @ v, acc', sk + s, stop))"
proof (induction rows arbitrary: valid acc sk)
  case Nil
  show ?case by simp
next
  case (Cons r rows)
  note a = Cons.IH [of valid acc "sk + 1"] Cons.IH [of "[]" acc 1]
  note b = Cons.IH [of "valid @ [x]" "acc + 1" sk for x] Cons.IH [of "[x]" "acc + 1" 0 for x]
  show ?case
    by (simp add: Let_def a b split: prod.splits)
qed

lemma select_valid_rows_Nil [simp]: "select_valid_rows P [] k acc = ([], acc, 0, False)"
  by (simp add: select_valid_rows_def)

lemma select_valid_rows_Cons:
  "select_valid_rows P (r # rows) k acc
     = (case valid_row P r of
          None \<Rightarrow>
            (case select_valid_rows P rows k acc of
               (v, acc', s, stop) \<Rightarrow> (v, acc', s + 1, stop))
        | Some x \<Rightarrow>
            if 0 < k \<and> k \<le> acc + 1 then ([x], acc + 1, 0, True)
            else (case select_valid_rows P rows k (acc + 1) of
                    (v, acc', s, stop) \<Rightarrow> (x # v, acc', s, stop)))"
  unfolding select_valid_rows_def
  by (simp add: valid_row_def Let_def select_loop_shift [of P k rows "[x]" for x]
      select_loop_shift [of P k rows "[]" acc 1] split: prod.splits)

lemma select_valid_rows_append:
  "select_valid_rows P (xs @ ys) k acc
     = (case select_valid_rows P xs k acc of
          (v, acc', s, stop) \<Rightarrow>
            if stop then (v, acc', s, stop)
            else (case select_valid_rows P ys k acc' of
                    (v2, acc2, s2, stop2) \<Rightarrow> (v @ v2, acc2, s + s2, stop2)))"
proof (induction xs arbitrary: acc)
  case Nil
  show ?case by (simp split: prod.splits)
next
  case (Cons r xs)
  show ?case
  proof (cases "valid_row P r")
    case None
    obtain v a s b where x: "select_valid_rows P xs k acc = (v, a, s, b)"
      by (metis prod_cases4)
    obtain v2 a2 s2 b2 where y: "select_valid_rows P ys k a = (v2, a2, s2, b2)"
      by (metis prod_cases4)
    show ?thesis
      using Cons.IH [of acc] by (simp add: select_valid_rows_Cons None x y)
  next
    case (Some p)
    obtain v a s b where x: "select_valid_rows P xs k (acc + 1) = (v, a, s, b)"
      by (metis prod_cases4)
    obtain v2 a2 s2 b2 where y: "select_valid_rows P ys k a = (v2, a2, s2, b2)"
      by (metis prod_cases4)
    show ?thesis
      using Cons.IH [of "acc + 1"] by (simp add: select_valid_rows_Cons Some x y)
  qed
qed

lemma select_batches_concat:
  "concat (map fst (select_batches P k batches acc)) = fst (select_valid_rows P (concat batches) k acc)
   \<and> sum_list (map snd (select_batches P k batches acc))
       = fst (snd (snd (select_valid_rows P (concat batches) k acc)))"
proof (induction batches arbitrary: acc)
  case Nil
  show ?case by simp
next
  case (Cons rows batches)
  obtain v acc' s stop where sel: "select_valid_rows P rows k acc = (v, acc', s, stop)"
    by (metis prod_cases4)
  show ?case
    using Cons.IH [of acc']
    by (cases stop) (simp_all add: sel select_valid_rows_append split: prod.splits)
qed

subsection \<open>The final state of a run\<close>

lemma state_tally_init: "state_tally init_state = add_counts zero_result zero_result"
  by (simp add: state_tally_def init_state_def add_counts_def zero_result_def counter_get_def)

lemma run_evaluation_tally:
  "map_option (\<lambda>s. (state_tally s, st_skipped s))
       (ok (run_evaluation P m mja h t hj tj k w batches sched))
     = map_option (\<lambda>c. (c, fst (snd (snd (select_valid_rows P (concat batches) k 0)))))
         (tally_rows P (single_args m mja h t hj tj) m mja
            (fst (select_valid_rows P (concat batches) k 0)))"
proof -
  let ?a = "single_args m mja h t hj tj"
  let ?xs = "select_batches P k batches 0"
  let ?V = "fst (select_valid_rows P (concat batches) k 0)"
  let ?S = "fst (snd (snd (select_valid_rows P (concat batches) k 0)))"
  let ?T = "tally_rows P ?a m mja ?V"
  have c: "concat (map fst ?xs) = ?V" "sum_list (map snd ?xs) = ?S"
    using select_batches_concat [of P k batches 0] by simp_all
  have z: "map_option (\<lambda>c. (add_counts (state_tally init_state) c, st_skipped init_state + ?S)) ?T
      = map_option (\<lambda>c. (c, ?S)) ?T"
  proof (cases ?T)
    case None
    then show ?thesis by simp
  next
    case (Some c)
    then have "ints c = c"
      using tally_rows_ints [of P ?a m mja ?V] by simp
    then have "add_counts (add_counts zero_result zero_result) c = c"
      by (simp add: ints_def add_counts_commute)
    moreover have "st_skipped init_state = 0"
      by (simp add: init_state_def)
    ultimately show ?thesis
      using Some by (simp add: state_tally_init)
  qed
  have zt: "oadd (futures_tally []) ?T = ?T"
    by (subst oadd_commute) simp
  show ?thesis
  proof (cases "max 1 w = 1")
    case True
    then have "run_evaluation P m mja h t hj tj k w batches sched
        = seq_loop P ?a k batches init_state 0"
      unfolding run_evaluation_def Let_def by (simp only: if_True refl)
    then have "run_evaluation P m mja h t hj tj k w batches sched = seq_steps P ?a ?xs init_state"
      by (simp only: seq_loop_steps)
    then show ?thesis
      using seq_steps_tally [of P m mja h t hj tj ?xs init_state] by (simp only: c z)
  next
    case False
    then have "run_evaluation P m mja h t hj tj k w batches sched
        = par_loop P (pool_args h t hj tj) (pool_globals m mja) k (nat (max 2 (max 1 w * 3)))
            batches sched init_state 0 []"
      unfolding run_evaluation_def Let_def by (simp only: if_False refl)
    then have "run_evaluation P m mja h t hj tj k w batches sched
        = par_steps P (pool_args h t hj tj) (pool_globals m mja) (nat (max 2 (max 1 w * 3))) ?xs
            sched init_state []"
      by (simp only: par_loop_steps)
    then show ?thesis
      using par_steps_tally [of P h t hj tj m mja "nat (max 2 (max 1 w * 3))" ?xs sched init_state "[]"]
      by (simp only: c z zt)
  qed
qed

text \<open>
  The integer counters of the final state of a run are a function of the stream of rows:
  they do not depend on how the stream is cut into batches, on the worker count or on the
  order in which the tasks complete.
\<close>

theorem run_evaluation_counts_independent:
  assumes "concat batches1 = concat batches2"
  shows "map_option (\<lambda>s. (state_tally s, st_skipped s))
           (ok (run_evaluation P m mja h t hj tj k w1 batches1 sched1))
       = map_option (\<lambda>s. (state_tally s, st_skipped s))
           (ok (run_evaluation P m mja h t hj tj k w2 batches2 sched2))"
  by (simp only: run_evaluation_tally assms)

subsection \<open>Merging the results of a partition\<close>

lemma futures_tally_chunks:
  "futures_tally (map (\<lambda>c. evaluate_valid_rows P (pool_globals m mja) c (pool_args h t hj tj)) chunks)
     = tally_rows P (single_args m mja h t hj tj) m mja (concat chunks)"
proof (induction chunks)
  case Nil
  show ?case by simp
next
  case (Cons c chunks)
  have "oadd (ok (evaluate_valid_rows P (pool_globals m mja) c (pool_args h t hj tj)))
          (tally_rows P (single_args m mja h t hj tj) m mja (concat chunks))
      = oadd (map_option ints (ok (evaluate_valid_rows P (pool_globals m mja) c (pool_args h t hj tj))))
          (tally_rows P (single_args m mja h t hj tj) m mja (concat chunks))"
    by (simp only: oadd_ints_left)
  then show ?case
    using Cons by (simp add: tally_rows_append evaluate_pool_tally)
qed

text \<open>
  Claim C1, for the integer counters. When the rows of a dataset are cut into chunks in
  any way, the chunks are evaluated by workers and the results are merged in any order,
  the merge succeeds and every integer counter of the state is what evaluating the whole
  dataset in a single call and merging that result gives.
\<close>

theorem merged_counters_independent:
  assumes whole:
      "evaluate_valid_rows P no_globals (concat chunks) (single_args m mja h t hj tj) = Inr whole"
    and order:
      "mset order
         = mset (map (\<lambda>c. evaluate_valid_rows P (pool_globals m mja) c (pool_args h t hj tj)) chunks)"
  shows "\<exists>st'. merge_results P st order = Inr st'
           \<and> state_tally st' = state_tally (merge_partial_result P st whole)
           \<and> st_skipped st' = st_skipped st"
proof -
  have "futures_tally order = tally_rows P (single_args m mja h t hj tj) m mja (concat chunks)"
    using futures_tally_mset [OF order] by (simp only: futures_tally_chunks)
  also have "\<dots> = Some (ints whole)"
    using evaluate_single_tally [of P "concat chunks" m mja h t hj tj] whole by (simp add: ok_def)
  finally have "map_option (\<lambda>s. (state_tally s, st_skipped s)) (ok (merge_results P st order))
      = Some (add_counts (state_tally st) (ints whole), st_skipped st)"
    using merge_results_tally [of P st order] by simp
  then obtain st' where "merge_results P st order = Inr st'"
    "state_tally st' = add_counts (state_tally st) (ints whole)" "st_skipped st' = st_skipped st"
    by (cases "merge_results P st order") (auto simp: ok_def)
  then show ?thesis
    by (simp add: state_tally_merge ints_def)
qed

lemma steep_args_single:
  "steep_args = single_args steep_model None DEFAULT_HUMAN_THRESHOLD DEFAULT_AI_THRESHOLD
                  DEFAULT_HUMAN_THRESHOLD DEFAULT_AI_THRESHOLD"
  by (simp add: steep_args_def single_args_def)

lemma evaluate_pool_single:
  "evaluate_valid_rows P (pool_globals m mja) rows (pool_args h t hj tj)
     = evaluate_valid_rows P no_globals rows (single_args m mja h t hj tj)"
proof -
  have "eval_rows P (pool_args h t hj tj) m mja rows acc
      = eval_rows P (single_args m mja h t hj tj) m mja rows acc" for acc
  proof (induction rows arbitrary: acc)
    case Nil
    show ?case by simp
  next
    case (Cons r rows)
    have "eval_row P (pool_args h t hj tj) m mja acc r
        = eval_row P (single_args m mja h t hj tj) m mja acc r"
      by (rule eval_row_args) (simp_all add: pool_args_def single_args_def)
    then show ?case
      by (simp add: Cons split: sum.splits)
  qed
  then show ?thesis
    by (cases mja)
      (simp_all add: evaluate_valid_rows_def pool_args_def pool_globals_def single_args_def
        no_globals_def)
qed

subsection \<open>The sum of the scores\<close>

lemma st_score_sum_merge:
  "st_score_sum (merge_partial_result P st p) = fadd P (st_score_sum st) (p_score_sum p)"
  by (simp add: merge_partial_result_def)

lemma p_score_sum_count_row:
  "p_score_sum (count_row P acc j gt pred s) = fadd P (p_score_sum acc) s"
  by (simp add: count_row_def)

lemma normalize_aaa: "normalize_text ref_platform (Some (lit ''aaa'')) = lit ''aaa''"
  by (rule normalize_text_plain) (simp add: lit_def py_isspace_def)

lemma bucket_aaa: "bucket_of (lit ''aaa'') 2 0 = 0"
  by (simp add: bucket_of_def lit_def fnv1a32_def fnv1a_step_def)

lemma score_steep:
  "compute_score ref_platform (lit ''aaa'') steep_model = Inr (sigmoid ref_platform (Fin (- 38)))"
proof -
  have 1: "0 < model_dim steep_model"
    and 2: "model_params steep_model = NaiveBayes (Fin (- 38)) [Fin 0, Fin 0]"
    and 3: "int (length [Fin 0 :: fl, Fin 0]) = model_dim steep_model"
    and 4: "type_or_default (model_type steep_model) \<noteq> lit ''logistic_hash3''"
    by (simp_all add: steep_model_def type_or_default_def lit_def)
  have b: "nat (max 200 (model_max_chars steep_model)) = 1200" "model_dim steep_model = 2"
    by (simp_all add: steep_model_def)
  have l: "length (lit ''aaa'') = 3"
    by (simp add: lit_def)
  have w: "[0 ..< min (length (lit ''aaa'')) 1200 - 2] = [0]"
    by (simp add: l)
  have f: "foldl (fadd ref_platform) (Fin (- 38))
             (map (\<lambda>i. [Fin 0, Fin 0] ! bucket_of (lit ''aaa'') 2 i) [0]) = Fin (- 38)"
    by (simp add: bucket_aaa ref_platform_def rnd_m38)
  have "spec_nb_score ref_platform 1200 2 (Fin (- 38)) [Fin 0, Fin 0] (lit ''aaa'')
      = sigmoid ref_platform (Fin (- 38))"
    unfolding spec_nb_score_def w f by (simp add: l)
  then show ?thesis
    using compute_score_nb [OF 1 2 3 4, of ref_platform "lit ''aaa''"]
    unfolding b normalize_aaa by simp
qed

lemma eval_row_short:
  "eval_row ref_platform steep_args steep_model None acc short_row
     = Inr (count_row ref_platform acc False ''AI'' ''Unknown'' (Fin (1 / 2)))"
proof -
  have j: "is_likely_japanese_text ref_platform (lit ''a'') = False"
    by (rule not_japanese_ascii) (simp_all add: lit_def)
  have p: "predict_judge (Fin (1 / 2)) DEFAULT_HUMAN_THRESHOLD DEFAULT_AI_THRESHOLD = ''Unknown''"
    by (simp add: predict_judge_def DEFAULT_HUMAN_THRESHOLD_def DEFAULT_AI_THRESHOLD_def)
  show ?thesis
    by (simp add: steep_args_def short_row_def eval_row_def Let_def j score_short p)
qed

lemma eval_row_steep:
  assumes "sigmoid ref_platform (Fin (- 38)) = Fin x" and "x < 1 / 4"
  shows "eval_row ref_platform steep_args steep_model None acc steep_row
     = Inr (count_row ref_platform acc False ''AI'' ''Human'' (Fin x))"
proof -
  have j: "is_likely_japanese_text ref_platform (lit ''aaa'') = False"
    by (rule not_japanese_ascii) (simp_all add: lit_def)
  have p: "predict_judge (Fin x) DEFAULT_HUMAN_THRESHOLD DEFAULT_AI_THRESHOLD = ''Human''"
    using assms(2) by (simp add: predict_judge_def DEFAULT_HUMAN_THRESHOLD_def)
  show ?thesis
    by (simp add: steep_args_def steep_row_def eval_row_def Let_def j score_steep assms(1) p)
qed

lemma score_sum_partition:
  "map_sum id st_score_sum
     (merge_results ref_platform init_state
        [evaluate_valid_rows ref_platform no_globals [short_row] steep_args,
         evaluate_valid_rows ref_platform no_globals [steep_row, steep_row] steep_args])
     = Inr (Fin (1 / 2 + 1 / 2 ^ 53))
   \<and> map_sum id st_score_sum
       (merge_results ref_platform init_state
          [evaluate_valid_rows ref_platform no_globals [short_row, steep_row, steep_row]
             steep_args])
     = Inr (Fin (1 / 2))"
proof -
  obtain k where k: "sigmoid ref_platform (Fin (- 38)) = Fin (of_int k / 2 ^ 107)"
    "2 ^ 52 + 1 \<le> k" "k \<le> 2 ^ 53 - 1"
    by (rule sigmoid_m38)
  define x :: real where "x = of_int k / 2 ^ 107"
  have kr: "(2 ^ 52 + 1 :: real) \<le> of_int k" "of_int k \<le> (2 ^ 53 - 1 :: real)"
    using k(2,3) by (simp_all flip: of_int_le_iff)
  have x: "0 \<le> x" "x \<le> 1 / 2 ^ 54" "1 / 2 ^ 54 < x + x" "x + x \<le> 1 / 2 ^ 53" "x < 1 / 4"
    using kr by (simp_all add: x_def field_simps)
  have s: "sigmoid ref_platform (Fin (- 38)) = Fin x"
    using k(1) by (simp add: x_def)
  note r = eval_row_short eval_row_steep [OF s x(5)]
  have a1: "fadd ref_platform (Fin 0) (Fin (1 / 2)) = Fin (1 / 2)"
    by (simp add: ref_platform_def rnd_half)
  have a2: "fadd ref_platform (Fin (1 / 2)) (Fin x) = Fin (1 / 2)"
    using rnd_half_plus_low [OF x(1,2)] by (simp add: ref_platform_def)
  have "rnd x = Fin x"
    unfolding x_def using k(2,3)
    by (intro rnd_exact [of _ k "- 55"]) (simp_all add: powr_neg_numeral)
  then have a3: "fadd ref_platform (Fin 0) (Fin x) = Fin x"
    by (simp add: ref_platform_def)
  have "rnd (x + x) = Fin (x + x)"
    unfolding x_def using k(2,3)
    by (intro rnd_exact [of _ k "- 54"]) (simp_all add: powr_neg_numeral)
  then have a4: "fadd ref_platform (Fin x) (Fin x) = Fin (2 * x)"
    by (simp add: ref_platform_def)
  have "rnd (1 / 2 + (x + x)) = Fin (1 / 2 + 1 / 2 ^ 53)"
    using x(3,4) by (rule rnd_half_plus_high)
  then have a5: "fadd ref_platform (Fin (1 / 2)) (Fin (2 * x)) = Fin (1 / 2 + 1 / 2 ^ 53)"
    by (simp add: ref_platform_def)
  have z: "p_score_sum zero_result = Fin 0" "st_score_sum init_state = Fin 0"
    by (simp_all add: zero_result_def init_state_def)
  have g: "arg_model steep_args = Some steep_model" "arg_model_ja steep_args = None"
    "WORKER_MODEL_JA no_globals = None"
    by (simp_all add: steep_args_def no_globals_def)
  show ?thesis
    by (simp add: evaluate_valid_rows_def Let_def g r st_score_sum_merge p_score_sum_count_row
        z a1 a2 a3 a4 a5 del: ieee_add.simps)
qed

lemma eval_row_steep_sigmoid:
  "eval_row ref_platform steep_args steep_model None acc steep_row
     = Inr (count_row ref_platform acc False ''AI'' ''Human'' (sigmoid ref_platform (Fin (- 38))))"
proof -
  obtain k where k: "sigmoid ref_platform (Fin (- 38)) = Fin (of_int k / 2 ^ 107)"
    "2 ^ 52 + 1 \<le> k" "k \<le> 2 ^ 53 - 1"
    by (rule sigmoid_m38)
  define x :: real where "x = of_int k / 2 ^ 107"
  have "of_int k \<le> (2 ^ 53 - 1 :: real)"
    using k(3) by (simp flip: of_int_le_iff)
  then have x: "x < 1 / 4"
    by (simp add: x_def field_simps)
  have s: "sigmoid ref_platform (Fin (- 38)) = Fin x"
    using k(1) by (simp add: x_def)
  show ?thesis
    unfolding s by (rule eval_row_steep [OF s x])
qed

lemma evaluate_three_rows:
  "evaluate_valid_rows ref_platform no_globals [short_row, steep_row, steep_row] steep_args
     = Inr (count_row ref_platform
              (count_row ref_platform
                 (count_row ref_platform zero_result False ''AI'' ''Unknown'' (Fin (1 / 2)))
                 False ''AI'' ''Human'' (sigmoid ref_platform (Fin (- 38))))
              False ''AI'' ''Human'' (sigmoid ref_platform (Fin (- 38))))"
proof -
  have g: "arg_model steep_args = Some steep_model" "arg_model_ja steep_args = None"
    "WORKER_MODEL_JA no_globals = None"
    by (simp_all add: steep_args_def no_globals_def)
  show ?thesis
    by (simp add: evaluate_valid_rows_def Let_def g eval_row_short eval_row_steep_sigmoid)
qed

theorem merged_counters_independent_witness:
  "evaluate_valid_rows ref_platform no_globals (concat [[short_row], [steep_row, steep_row]])
       (single_args steep_model None DEFAULT_HUMAN_THRESHOLD DEFAULT_AI_THRESHOLD
          DEFAULT_HUMAN_THRESHOLD DEFAULT_AI_THRESHOLD)
     = Inr (count_row ref_platform
              (count_row ref_platform
                 (count_row ref_platform zero_result False ''AI'' ''Unknown'' (Fin (1 / 2)))
                 False ''AI'' ''Human'' (sigmoid ref_platform (Fin (- 38))))
              False ''AI'' ''Human'' (sigmoid ref_platform (Fin (- 38))))
   \<and> mset [evaluate_valid_rows ref_platform (pool_globals steep_model None)
              [steep_row, steep_row]
              (pool_args DEFAULT_HUMAN_THRESHOLD DEFAULT_AI_THRESHOLD
                 DEFAULT_HUMAN_THRESHOLD DEFAULT_AI_THRESHOLD),
            evaluate_valid_rows ref_platform (pool_globals steep_model None) [short_row]
              (pool_args DEFAULT_HUMAN_THRESHOLD DEFAULT_AI_THRESHOLD
                 DEFAULT_HUMAN_THRESHOLD DEFAULT_AI_THRESHOLD)]
       = mset (map (\<lambda>c. evaluate_valid_rows ref_platform (pool_globals steep_model None) c
                          (pool_args DEFAULT_HUMAN_THRESHOLD DEFAULT_AI_THRESHOLD
                             DEFAULT_HUMAN_THRESHOLD DEFAULT_AI_THRESHOLD))
                [[short_row], [steep_row, steep_row]])
   \<and> (\<exists>st'. merge_results ref_platform
               (merge_partial_result ref_platform init_state
                  (count_row ref_platform zero_result False ''AI'' ''Unknown'' (Fin (1 / 2))))
               [evaluate_valid_rows ref_platform (pool_globals steep_model None)
                  [steep_row, steep_row]
                  (pool_args DEFAULT_HUMAN_THRESHOLD DEFAULT_AI_THRESHOLD
                     DEFAULT_HUMAN_THRESHOLD DEFAULT_AI_THRESHOLD),
                evaluate_valid_rows ref_platform (pool_globals steep_model None) [short_row]
                  (pool_args DEFAULT_HUMAN_THRESHOLD DEFAULT_AI_THRESHOLD
                     DEFAULT_HUMAN_THRESHOLD DEFAULT_AI_THRESHOLD)] = Inr st'
           \<and> state_tally st'
               = state_tally
                   (merge_partial_result ref_platform
                      (merge_partial_result ref_platform init_state
                         (count_row ref_platform zero_result False ''AI'' ''Unknown''
                            (Fin (1 / 2))))
                      (count_row ref_platform
                         (count_row ref_platform
                            (count_row ref_platform zero_result False ''AI'' ''Unknown''
                               (Fin (1 / 2)))
                            False ''AI'' ''Human'' (sigmoid ref_platform (Fin (- 38))))
                         False ''AI'' ''Human'' (sigmoid ref_platform (Fin (- 38)))))
           \<and> st_total st' = 4
           \<and> counter_get (st_gt_counts st') ''AI'' = 4
           \<and> counter_get (st_pred_counts st') ''Human'' = 2
           \<and> counter_get (st_pred_counts st') ''Unknown'' = 2
           \<and> counter_get (st_conf st') (''AI'', ''Human'') = 2
           \<and> counter_get (st_conf st') (''AI'', ''Unknown'') = 2
           \<and> st_skipped st' = 0)"
proof -
  let ?c1 = "count_row ref_platform zero_result False ''AI'' ''Unknown'' (Fin (1 / 2))"
  let ?s = "sigmoid ref_platform (Fin (- 38))"
  let ?whole = "count_row ref_platform (count_row ref_platform ?c1 False ''AI'' ''Human'' ?s)
                  False ''AI'' ''Human'' ?s"
  let ?st = "merge_partial_result ref_platform init_state ?c1"
  let ?E = "\<lambda>c. evaluate_valid_rows ref_platform (pool_globals steep_model None) c
                   (pool_args DEFAULT_HUMAN_THRESHOLD DEFAULT_AI_THRESHOLD
                      DEFAULT_HUMAN_THRESHOLD DEFAULT_AI_THRESHOLD)"
  have w: "evaluate_valid_rows ref_platform no_globals (concat [[short_row], [steep_row, steep_row]])
       (single_args steep_model None DEFAULT_HUMAN_THRESHOLD DEFAULT_AI_THRESHOLD
          DEFAULT_HUMAN_THRESHOLD DEFAULT_AI_THRESHOLD) = Inr ?whole"
    using evaluate_three_rows by (simp add: steep_args_single)
  have o: "mset [?E [steep_row, steep_row], ?E [short_row]]
             = mset (map ?E [[short_row], [steep_row, steep_row]])"
    by (simp add: add_mset_commute)
  obtain st' where m: "merge_results ref_platform ?st [?E [steep_row, steep_row], ?E [short_row]]
                         = Inr st'"
    and t: "state_tally st' = state_tally (merge_partial_result ref_platform ?st ?whole)"
    and k: "st_skipped st' = st_skipped ?st"
    using merged_counters_independent [OF w o, of ?st] by blast
  have e: "st_total st' = p_total (state_tally st')"
    "counter_get (st_gt_counts st') ''AI'' = p_gt_ai (state_tally st')"
    "counter_get (st_pred_counts st') ''Human'' = p_pred_human (state_tally st')"
    "counter_get (st_pred_counts st') ''Unknown'' = p_pred_unknown (state_tally st')"
    "counter_get (st_conf st') (''AI'', ''Human'') = p_ai_human (state_tally st')"
    "counter_get (st_conf st') (''AI'', ''Unknown'') = p_ai_unknown (state_tally st')"
    by (simp_all add: state_tally_def)
  have v: "p_total (state_tally st') = 4" "p_gt_ai (state_tally st') = 4"
    "p_pred_human (state_tally st') = 2" "p_pred_unknown (state_tally st') = 2"
    "p_ai_human (state_tally st') = 2" "p_ai_unknown (state_tally st') = 2"
    unfolding t state_tally_merge state_tally_init
    by (simp_all add: add_counts_def count_row_def zero_result_def b2i_def)
  have z: "st_skipped st' = 0"
    unfolding k by (simp add: init_state_def)
  note n = v [folded e]
  show ?thesis
    by (intro conjI exI [of _ st']) (rule w o m t z n)+
qed

text \<open>
  Claim C1 as stated covers every counter field, the sum of the scores among them. On
  doubles that sum depends on the partition: for a row that scores 0.5 and two rows that
  score \<open>sigmoid(-38)\<close>, merging the results of the chunks \<open>[r1]\<close> and \<open>[r2, r3]\<close> gives
  \<open>0.5 + 2^-53\<close>, and merging the result of \<open>[r1, r2, r3]\<close> evaluated whole gives \<open>0.5\<close>.
\<close>

theorem merged_score_sum_counterexample:
  "map_sum id st_score_sum
     (merge_results ref_platform init_state
        [evaluate_valid_rows ref_platform (pool_globals steep_model None) [short_row]
           (pool_args DEFAULT_HUMAN_THRESHOLD DEFAULT_AI_THRESHOLD
              DEFAULT_HUMAN_THRESHOLD DEFAULT_AI_THRESHOLD),
         evaluate_valid_rows ref_platform (pool_globals steep_model None) [steep_row, steep_row]
           (pool_args DEFAULT_HUMAN_THRESHOLD DEFAULT_AI_THRESHOLD
              DEFAULT_HUMAN_THRESHOLD DEFAULT_AI_THRESHOLD)])
     = Inr (Fin (1 / 2 + 1 / 2 ^ 53))
   \<and> map_sum id st_score_sum
       (merge_results ref_platform init_state
          [evaluate_valid_rows ref_platform no_globals [short_row, steep_row, steep_row]
             (single_args steep_model None DEFAULT_HUMAN_THRESHOLD DEFAULT_AI_THRESHOLD
                DEFAULT_HUMAN_THRESHOLD DEFAULT_AI_THRESHOLD)])
     = Inr (Fin (1 / 2))"
  unfolding evaluate_pool_single steep_args_single [symmetric]
  by (rule score_sum_partition)

section \<open>Properties of the entry point\<close>

lemma load_model_bad: "model_file_bad raw \<longleftrightarrow> (\<exists>e. load_model raw = Inl e)"
  by (auto simp: model_file_bad_def raw_param_count_def load_model_def Let_def)

lemma main_primary_fails:
  "load_model model_file = Inl e \<Longrightarrow> main P ar model_file model_ja_file batches sched = Inl e"
  by (simp add: main_def)

lemma main_secondary_fails:
  "load_model model_file = Inr m \<Longrightarrow> load_model f = Inl e
     \<Longrightarrow> main P ar model_file (Some f) batches sched = Inl e"
  by (simp add: main_def)

lemma main_thresholds_fail:
  assumes "load_model model_file = Inr m"
    and "fle (effective_threshold (model_ai m) (args_ai_threshold ar))
           (effective_threshold (model_human m) (args_human_threshold ar))"
  shows "\<exists>e. \<forall>batches sched. main P ar model_file model_ja_file batches sched = Inl e"
proof (cases "case model_ja_file of None \<Rightarrow> Inr None
              | Some f \<Rightarrow> (case load_model f of Inl e \<Rightarrow> Inl e | Inr mja \<Rightarrow> Inr (Some mja))")
  case (Inl e)
  then show ?thesis
    using assms(1) by (simp add: main_def)
next
  case (Inr mja)
  then show ?thesis
    using assms by (simp add: main_def Let_def)
qed

lemma main_thresholds_ja_fail:
  assumes "load_model model_file = Inr m" and "load_model f = Inr mja"
    and "fle (effective_threshold (model_ai mja) (args_ai_threshold_ja ar))
           (effective_threshold (model_human mja) (args_human_threshold_ja ar))"
  shows "\<exists>e. \<forall>batches sched. main P ar model_file (Some f) batches sched = Inl e"
  using assms
  by (cases "fle (effective_threshold (model_ai m) (args_ai_threshold ar))
                 (effective_threshold (model_human m) (args_human_threshold ar))")
     (simp_all add: main_def Let_def)

text \<open>
  Claim C9. If the primary model file or a given secondary model file has a \<open>dim\<close> that is
  not positive or a parameter array whose length is not \<open>dim\<close>, or if the effective
  thresholds of the primary or of the secondary model have \<open>ai_min \<le> human_max\<close>, then
  \<open>main\<close> raises, and the exception is the same whatever the dataset and the schedule of the
  workers are: no row is read and no summary is produced.
\<close>

theorem main_fails_before_any_row:
  assumes "model_file_bad model_file
         \<or> (\<exists>f. model_ja_file = Some f \<and> model_file_bad f)
         \<or> (\<exists>m. load_model model_file = Inr m
               \<and> fle (effective_threshold (model_ai m) (args_ai_threshold ar))
                      (effective_threshold (model_human m) (args_human_threshold ar)))
         \<or> (\<exists>f mja. model_ja_file = Some f \<and> load_model f = Inr mja
               \<and> fle (effective_threshold (model_ai mja) (args_ai_threshold_ja ar))
                      (effective_threshold (model_human mja) (args_human_threshold_ja ar)))"
  shows "\<exists>e. \<forall>batches sched. main P ar model_file model_ja_file batches sched = Inl e"
proof (cases "load_model model_file")
  case (Inl e)
  then show ?thesis
    using main_primary_fails by blast
next
  case (Inr m)
  then have ok: "\<not> model_file_bad model_file"
    using load_model_bad [of model_file] by simp
  from assms ok consider
      f where "model_ja_file = Some f" "model_file_bad f"
    | "fle (effective_threshold (model_ai m) (args_ai_threshold ar))
           (effective_threshold (model_human m) (args_human_threshold ar))"
    | f mja where "model_ja_file = Some f" "load_model f = Inr mja"
        "fle (effective_threshold (model_ai mja) (args_ai_threshold_ja ar))
             (effective_threshold (model_human mja) (args_human_threshold_ja ar))"
    using Inr by auto
  then show ?thesis
  proof cases
    case 1
    then obtain e where "load_model f = Inl e"
      using load_model_bad [of f] by blast
    then show ?thesis
      using main_secondary_fails [OF Inr] 1(1) by blast
  next
    case 2
    then show ?thesis
      using main_thresholds_fail [OF Inr] by blast
  next
    case 3
    then show ?thesis
      using main_thresholds_ja_fail [OF Inr 3(2,3)] by blast
  qed
qed

theorem main_fails_before_any_row_witness:
  "model_file_bad (steep_file\<lparr>raw_dim := Some 0\<rparr>)
   \<and> (\<exists>e. \<forall>batches sched.
          main ref_platform default_args (steep_file\<lparr>raw_dim := Some 0\<rparr>) None batches sched
            = Inl e)
   \<and> model_file_bad (steep_file\<lparr>raw_delta := Some [Fin 0]\<rparr>)
   \<and> (\<exists>e. \<forall>batches sched.
          main ref_platform default_args steep_file
            (Some (steep_file\<lparr>raw_delta := Some [Fin 0]\<rparr>)) batches sched = Inl e)
   \<and> load_model steep_file = Inr steep_model
   \<and> fle (effective_threshold (model_ai steep_model) (args_ai_threshold swapped_args))
         (effective_threshold (model_human steep_model) (args_human_threshold swapped_args))
   \<and> (\<exists>e. \<forall>batches sched.
          main ref_platform swapped_args steep_file None batches sched = Inl e)"
proof -
  have a: "model_file_bad (steep_file\<lparr>raw_dim := Some 0\<rparr>)"
    by (simp add: model_file_bad_def steep_file_def int_or_def)
  have b: "model_file_bad (steep_file\<lparr>raw_delta := Some [Fin 0]\<rparr>)"
    by (simp add: model_file_bad_def raw_param_count_def steep_file_def int_or_def str_or_def
        list_or_empty_def lit_def)
  have c: "load_model steep_file = Inr steep_model"
    by (simp add: load_model_def steep_file_def steep_model_def int_or_def str_or_def
        list_or_empty_def float_or_zero_def lit_def)
  have d: "fle (effective_threshold (model_ai steep_model) (args_ai_threshold swapped_args))
         (effective_threshold (model_human steep_model) (args_human_threshold swapped_args))"
    by (simp add: effective_threshold_def swapped_args_def clamp_def py_min_def py_max_def
        isnan_def fle_def)
  show ?thesis
    using a b c d
      main_fails_before_any_row [where model_file = "steep_file\<lparr>raw_dim := Some 0\<rparr>"
        and model_ja_file = None and ar = default_args and P = ref_platform]
      main_fails_before_any_row [where model_file = steep_file
        and model_ja_file = "Some (steep_file\<lparr>raw_delta := Some [Fin 0]\<rparr>)"
        and ar = default_args and P = ref_platform]
      main_fails_before_any_row [where model_file = steep_file
        and model_ja_file = None and ar = swapped_args and P = ref_platform]
    by blast
qed

section \<open>The row budget\<close>

subsection \<open>A well-formed model scores every text\<close>

lemma dict_bump_keys: "fst ` set (dict_bump bc k) = insert k (fst ` set bc)"
  by (induction bc k rule: dict_bump.induct) auto

lemma count_loop_total:
  assumes "0 < d" and "\<forall>i \<in> set js. i + 2 < length n"
    and "\<forall>key \<in> fst ` set bc. 0 \<le> key \<and> key < d"
  shows "\<exists>bc'. count_loop n d (map int js) bc = Inr bc'
               \<and> (\<forall>key \<in> fst ` set bc'. 0 \<le> key \<and> key < d)"
  using assms(2,3)
proof (induction js arbitrary: bc)
  case Nil
  then show ?case by simp
next
  case (Cons i js)
  have i: "i + 2 < length n"
    using Cons.prems(1) by simp
  have h: "hash_trigram n (int i) d = Inr (int (bucket_of n d i))"
    and b: "bucket_of n d i < nat d"
    using hash_trigram_bucket [OF assms(1) i] by simp_all
  have k: "\<forall>key \<in> fst ` set (dict_bump bc (int (bucket_of n d i))). 0 \<le> key \<and> key < d"
    using Cons.prems(2) b by (auto simp: dict_bump_keys)
  have r: "\<forall>i \<in> set js. i + 2 < length n"
    using Cons.prems(1) by simp
  show ?case
    using Cons.IH [OF r k] by (simp add: h)
qed

lemma logistic_loop_total:
  assumes "\<forall>key \<in> fst ` set bc. 0 \<le> key \<and> key < int (length w)"
  shows "\<exists>l. logistic_loop P w tc bc logit = Inr l"
  using assms
proof (induction bc arbitrary: logit)
  case Nil
  then show ?case by simp
next
  case (Cons kv bc)
  obtain idx c where kv: "kv = (idx, c)"
    by (cases kv)
  have "0 \<le> idx" "idx < int (length w)"
    using Cons.prems by (simp_all add: kv)
  then have g: "py_getitem w idx = Inr (w ! nat idx)"
    using py_getitem_nat [of "nat idx" w] by simp
  have r: "\<forall>key \<in> fst ` set bc. 0 \<le> key \<and> key < int (length w)"
    using Cons.prems by simp
  show ?case
    using Cons.IH [OF r] by (simp add: kv g)
qed

lemma compute_score_total:
  assumes "model_wf m"
  shows "\<exists>s. compute_score P text m = Inr s"
proof (cases "model_params m")
  case (NaiveBayes prior delta)
  then show ?thesis
    using assms compute_score_nb [of m prior delta P "text"] by (simp add: model_wf_def)
next
  case (Logistic bias weights)
  let ?n = "normalize_text P (Some text)"
  let ?limit = "min (int (length ?n)) (max 200 (model_max_chars m))"
  have d: "0 < model_dim m" "max 1 (model_dim m) = model_dim m"
    and t: "type_or_default (model_type m) = lit ''logistic_hash3''"
    and l: "int (length weights) = model_dim m"
    using assms Logistic by (simp_all add: model_wf_def)
  have r: "\<forall>i \<in> set [0 ..< nat (?limit - 2)]. i + 2 < length ?n"
    by auto
  obtain bc where c: "count_loop ?n (model_dim m) (window_starts ?limit) [] = Inr bc"
    and k: "\<forall>key \<in> fst ` set bc. 0 \<le> key \<and> key < model_dim m"
    using count_loop_total [OF d(1) r, of "[]"] unfolding window_starts_def by auto
  have g: "\<exists>lg. logistic_loop P weights tc bc bias = Inr lg" for tc
    using logistic_loop_total [of bc weights P tc bias] k l by auto
  show ?thesis
    using g [of "?limit - 2"] by (auto simp add: compute_score_def Let_def d(2) t Logistic c)
qed

lemma eval_row_total:
  assumes "model_wf m" and "case mja of None \<Rightarrow> True | Some x \<Rightarrow> model_wf x"
  shows "\<exists>r. eval_row P a m mja acc row = Inr r \<and> p_total r = p_total acc + 1"
proof -
  define routed where "routed = fst (case mja of
      None \<Rightarrow> (m, human_threshold a, ai_threshold a)
    | Some x \<Rightarrow>
        if is_likely_japanese_text P (snd row) then
          (x, (case human_threshold_ja a of None \<Rightarrow> human_threshold a | Some t \<Rightarrow> t),
              (case ai_threshold_ja a of None \<Rightarrow> ai_threshold a | Some t \<Rightarrow> t))
        else (m, human_threshold a, ai_threshold a))"
  have "model_wf routed"
    using assms by (simp add: routed_def split: option.splits)
  then obtain s where "compute_score P (snd row) routed = Inr s"
    using compute_score_total by blast
  then show ?thesis
    by (simp add: eval_row_def Let_def routed_def [symmetric] count_row_def)
qed

lemma tally_rows_total:
  assumes "model_wf m" and "case mja of None \<Rightarrow> True | Some x \<Rightarrow> model_wf x"
  shows "\<exists>c. tally_rows P a m mja rows = Some c \<and> p_total c = int (length rows)"
proof (induction rows)
  case Nil
  show ?case by (simp add: add_counts_def zero_result_def)
next
  case (Cons row rows)
  obtain r where r: "eval_row P a m mja zero_result row = Inr r" "p_total r = 1"
    using eval_row_total [OF assms, of P a zero_result row] by (auto simp: zero_result_def)
  obtain c where c: "tally_rows P a m mja rows = Some c" "p_total c = int (length rows)"
    using Cons.IH by blast
  show ?case
    by (simp add: r c ok_def add_counts_def)
qed

lemma load_model_wf: "load_model raw = Inr m \<Longrightarrow> model_wf m"
  by (auto simp: load_model_def Let_def model_wf_def type_or_default_def str_or_def lit_def
      split: if_splits option.splits)

subsection \<open>The filter under a cap\<close>

lemma accepted_pairs_Nil [simp]: "accepted_pairs P [] = []"
  by (simp add: accepted_pairs_def List.map_filter_simps)

lemma accepted_pairs_Cons:
  "accepted_pairs P (r # rows)
     = (case valid_row P r of None \<Rightarrow> accepted_pairs P rows | Some x \<Rightarrow> x # accepted_pairs P rows)"
  by (simp add: accepted_pairs_def List.map_filter_simps split: option.splits)

lemma select_valid_rows_capped:
  assumes "0 < k" and "acc < k"
  shows "select_valid_rows P rows k acc
           = (take (nat (k - acc)) (accepted_pairs P rows),
              acc + int (min (nat (k - acc)) (length (accepted_pairs P rows))),
              int (length (filter (\<lambda>r. valid_row P r = None) (budget_prefix P (nat (k - acc)) rows))),
              nat (k - acc) \<le> length (accepted_pairs P rows))"
  using assms(2)
proof (induction rows arbitrary: acc)
  case Nil
  then show ?case by simp
next
  case (Cons r rows)
  show ?case
  proof (cases "valid_row P r")
    case None
    show ?thesis
      by (simp add: select_valid_rows_Cons [of P r rows k acc] None Cons.IH [OF Cons.prems]
          accepted_pairs_Cons)
  next
    case (Some x)
    show ?thesis
    proof (cases "k \<le> acc + 1")
      case True
      then have n: "nat (k - acc) = 1"
        using Cons.prems by simp
      have k: "0 < k \<and> k \<le> acc + 1"
        using True assms(1) by simp
      show ?thesis
        unfolding select_valid_rows_Cons [of P r rows k acc] Some option.case if_P [OF k]
        by (simp add: n accepted_pairs_Cons Some)
    next
      case False
      define j where "j = nat (k - (acc + 1))"
      from False have a: "acc + 1 < k" and n: "nat (k - acc) = Suc j" and j: "0 < j"
        by (simp_all add: j_def)
      have k: "\<not> (0 < k \<and> k \<le> acc + 1)"
        using False by simp
      have p: "budget_prefix P (Suc j) (r # rows) = r # budget_prefix P j rows"
        using j by (simp add: Some)
      show ?thesis
        unfolding select_valid_rows_Cons [of P r rows k acc] Some option.case if_not_P [OF k]
          Cons.IH [OF a] n j_def [symmetric] p
        by (simp add: accepted_pairs_Cons Some)
    qed
  qed
qed


subsection \<open>The cap is met exactly\<close>

lemma valid_row_good: "valid_row ref_platform good_row = Some (''AI'', lit ''a'')"
  by (simp add: valid_row_def good_row_def str_or_empty_def str_strip_def py_isspace_def
      ref_platform_def ascii_lower_def lit_def normalize_text_def str_replace_nbsp_def
      is_hspace_def Let_def)

lemma valid_row_bad: "valid_row ref_platform bad_row = None"
  by (simp add: valid_row_def bad_row_def str_or_empty_def str_strip_def py_isspace_def
      ref_platform_def ascii_lower_def lit_def Let_def)

lemma model_wf_steep: "model_wf steep_model"
  by (simp add: model_wf_def steep_model_def type_or_default_def lit_def)

text \<open>
  Claim C7. For a well-formed model (and a well-formed secondary model if there is one), a
  cap \<open>max_rows = k > 0\<close> and a stream with at least \<open>k\<close> valid rows, \<open>run_evaluation\<close> returns
  a state, whatever the split of the stream into batches, the worker count and the order in
  which the workers finish. In it \<open>processed_rows\<close> is \<open>k\<close>; the skipped rows are the invalid
  rows of the stream up to the \<open>k\<close>-th valid row, so no later row is filtered; and the
  counters are those of the first \<open>k\<close> valid rows, so no later row is scored and no
  accepted row is dropped.
\<close>

theorem row_budget_exact:
  assumes "model_wf m" and "case mja of None \<Rightarrow> True | Some x \<Rightarrow> model_wf x"
    and "0 < k" and "k \<le> int (length (accepted_pairs P (concat batches)))"
  shows "\<exists>st. run_evaluation P m mja h t hj tj k w batches sched = Inr st
            \<and> processed_rows st = k
            \<and> skipped_rows st
                = int (length (filter (\<lambda>r. valid_row P r = None)
                         (budget_prefix P (nat k) (concat batches))))
            \<and> tally_rows P (single_args m mja h t hj tj) m mja
                  (take (nat k) (accepted_pairs P (concat batches)))
                = Some (state_tally st)"
proof -
  let ?a = "single_args m mja h t hj tj"
  let ?V = "take (nat k) (accepted_pairs P (concat batches))"
  let ?S = "int (length (filter (\<lambda>r. valid_row P r = None)
                    (budget_prefix P (nat k) (concat batches))))"
  have sel: "fst (select_valid_rows P (concat batches) k 0) = ?V"
    "fst (snd (snd (select_valid_rows P (concat batches) k 0))) = ?S"
    using select_valid_rows_capped [OF assms(3) assms(3), of P "concat batches"] by simp_all
  obtain c where c: "tally_rows P ?a m mja ?V = Some c" "p_total c = int (length ?V)"
    using tally_rows_total [OF assms(1,2), of P ?a ?V] by blast
  have len: "int (length ?V) = k"
    using assms(3,4) by simp
  have "map_option (\<lambda>s. (state_tally s, st_skipped s))
          (ok (run_evaluation P m mja h t hj tj k w batches sched)) = Some (c, ?S)"
    unfolding run_evaluation_tally sel c by simp
  then obtain st where st: "ok (run_evaluation P m mja h t hj tj k w batches sched) = Some st"
    and v: "state_tally st = c" "st_skipped st = ?S"
    by auto
  have r: "run_evaluation P m mja h t hj tj k w batches sched = Inr st"
    using st by (simp add: ok_def split: sum.splits)
  have "st_total st = p_total (state_tally st)"
    by (simp add: state_tally_def)
  then have "processed_rows st = k"
    using v(1) c(2) len by (simp add: processed_rows_def)
  then show ?thesis
    using r v c(1) by (simp add: skipped_rows_def)
qed

theorem row_budget_exact_witness:
  "model_wf steep_model
   \<and> (0 :: int) < 1
   \<and> 1 \<le> int (length (accepted_pairs ref_platform (concat [[bad_row, good_row], [good_row]])))
   \<and> (\<exists>st. run_evaluation ref_platform steep_model None DEFAULT_HUMAN_THRESHOLD
               DEFAULT_AI_THRESHOLD DEFAULT_HUMAN_THRESHOLD DEFAULT_AI_THRESHOLD 1 2
               [[bad_row, good_row], [good_row]] [] = Inr st
           \<and> processed_rows st = 1
           \<and> skipped_rows st = 1)"
proof -
  have a: "1 \<le> int (length (accepted_pairs ref_platform (concat [[bad_row, good_row], [good_row]])))"
    by (simp add: accepted_pairs_Cons valid_row_good valid_row_bad)
  have b: "int (length (filter (\<lambda>r. valid_row ref_platform r = None)
                    (budget_prefix ref_platform (nat 1) (concat [[bad_row, good_row], [good_row]]))))
             = 1"
    by (simp add: valid_row_good valid_row_bad)
  show ?thesis
    using row_budget_exact [of steep_model None 1 ref_platform "[[bad_row, good_row], [good_row]]"
        DEFAULT_HUMAN_THRESHOLD DEFAULT_AI_THRESHOLD DEFAULT_HUMAN_THRESHOLD DEFAULT_AI_THRESHOLD
        2 "[]", OF model_wf_steep _ _ a]
    unfolding b using model_wf_steep a by auto
qed

section \<open>Rows that the filter rejects\<close>

lemma row_rejected_iff: "row_rejected P r \<longleftrightarrow> valid_row P r = None"
  by (simp add: row_rejected_def valid_row_def Let_def)

lemma select_valid_rows_uncapped:
  assumes "k \<le> 0"
  shows "select_valid_rows P rows k acc
           = (accepted_pairs P rows, acc + int (length (accepted_pairs P rows)),
              int (length (filter (\<lambda>r. valid_row P r = None) rows)), False)"
proof (induction rows arbitrary: acc)
  case Nil
  show ?case by simp
next
  case (Cons r rows)
  have k: "\<not> (0 < k \<and> k \<le> acc + 1)" for acc
    using assms by simp
  show ?case
    unfolding select_valid_rows_Cons [of P r rows k acc] if_not_P [OF k] Cons.IH
    by (cases "valid_row P r") (simp_all add: accepted_pairs_Cons)
qed

lemma select_valid_rows_stop:
  "snd (snd (snd (select_valid_rows P rows k 0)))
     = (0 < k \<and> k \<le> int (length (accepted_pairs P rows)))"
proof (cases "0 < k")
  case True
  show ?thesis
    using True by (simp add: select_valid_rows_capped [OF True True]) linarith
next
  case False
  then show ?thesis
    by (simp add: select_valid_rows_uncapped)
qed

lemma select_valid_rows_insert:
  assumes "valid_row P r = None"
  shows "select_valid_rows P (A @ r # B) k acc
           = (case select_valid_rows P (A @ B) k acc of
                (v, acc', s, stop) \<Rightarrow>
                  (v, acc',
                   s + (if snd (snd (snd (select_valid_rows P A k acc))) then 0 else 1), stop))"
  by (simp add: select_valid_rows_append [of P A _ k acc] select_valid_rows_Cons [of P r B k]
      assms split: prod.splits)

lemma select_batches_insert:
  assumes "valid_row P r = None"
  shows "map fst (select_batches P k (bs1 @ (pre @ r # post) # bs2) acc)
           = map fst (select_batches P k (bs1 @ (pre @ post) # bs2) acc)"
proof (induction bs1 arbitrary: acc)
  case Nil
  show ?case
    by (simp add: select_valid_rows_insert [OF assms] split: prod.splits)
next
  case (Cons b bs1)
  show ?case
    by (simp add: Cons.IH split: prod.splits)
qed

lemma skip_more_zero [simp]: "skip_more 0 st = st"
  by (simp add: skip_more_def)

lemma skip_more_add [simp]: "skip_more i (skip_more j st) = skip_more (i + j) st"
  by (simp add: skip_more_def)

lemma merge_partial_result_skip_more:
  "merge_partial_result P (skip_more n st) part = skip_more n (merge_partial_result P st part)"
  by (simp add: merge_partial_result_def skip_more_def)

lemma merge_results_skip_more:
  "merge_results P (skip_more n st) futs = map_sum id (skip_more n) (merge_results P st futs)"
proof (induction futs arbitrary: st)
  case Nil
  show ?case by simp
next
  case (Cons fut futs)
  show ?case
    by (cases fut) (simp_all add: merge_partial_result_skip_more Cons.IH)
qed

lemma seq_steps_skip_more:
  assumes "map fst xs = map fst ys"
  shows "seq_steps P a xs (skip_more n st)
           = map_sum id (skip_more (n + sum_list (map snd xs) - sum_list (map snd ys)))
               (seq_steps P a ys st)"
  using assms
proof (induction xs arbitrary: ys st n)
  case Nil
  then show ?case by simp
next
  case (Cons x xs)
  obtain v s where x: "x = (v, s)"
    by (cases x)
  obtain s' ys' where ys: "ys = (v, s') # ys'" and r: "map fst xs = map fst ys'"
    using Cons.prems by (cases ys) (auto simp: x)
  have b: "(skip_more n st)\<lparr>st_skipped := st_skipped (skip_more n st) + s\<rparr>
             = skip_more (n + s - s') (st\<lparr>st_skipped := st_skipped st + s'\<rparr>)"
    by (simp add: skip_more_def)
  have c: "n + s - s' + sum_list (map snd xs) - sum_list (map snd ys')
             = n + (s + sum_list (map snd xs)) - (s' + sum_list (map snd ys'))"
    by simp
  show ?case
    unfolding x ys seq_steps.simps Let_def b
    by (simp add: Cons.IH [OF r] merge_partial_result_skip_more c split: sum.splits)
qed

lemma par_steps_skip_more:
  assumes "map fst xs = map fst ys"
  shows "par_steps P a G mi xs sched (skip_more n st) pending
           = map_sum id (skip_more (n + sum_list (map snd xs) - sum_list (map snd ys)))
               (par_steps P a G mi ys sched st pending)"
  using assms
proof (induction xs arbitrary: ys st n sched pending)
  case Nil
  then show ?case by (simp add: merge_results_skip_more id_def)
next
  case (Cons x xs)
  obtain v s where x: "x = (v, s)"
    by (cases x)
  obtain s' ys' where ys: "ys = (v, s') # ys'" and r: "map fst xs = map fst ys'"
    using Cons.prems by (cases ys) (auto simp: x)
  have b: "(skip_more n st)\<lparr>st_skipped := st_skipped (skip_more n st) + s\<rparr>
             = skip_more (n + s - s') (st\<lparr>st_skipped := st_skipped st + s'\<rparr>)"
    by (simp add: skip_more_def)
  have c: "n + s - s' + sum_list (map snd xs) - sum_list (map snd ys')
             = n + (s + sum_list (map snd xs)) - (s' + sum_list (map snd ys'))"
    by simp
  show ?case
    unfolding x ys par_steps.simps Let_def b
    by (simp add: Cons.IH [OF r] merge_results_skip_more c split: sum.splits prod.splits)
qed


lemma skipped_sum_insert:
  assumes "valid_row P r = None"
  shows "sum_list (map snd (select_batches P k (bs1 @ (pre @ r # post) # bs2) 0))
           = sum_list (map snd (select_batches P k (bs1 @ (pre @ post) # bs2) 0))
             + (if 0 < k \<and> k \<le> int (length (accepted_pairs P (concat bs1 @ pre))) then 0 else 1)"
proof -
  have a: "concat (bs1 @ (pre @ r # post) # bs2) = (concat bs1 @ pre) @ r # (post @ concat bs2)"
    and b: "concat (bs1 @ (pre @ post) # bs2) = (concat bs1 @ pre) @ (post @ concat bs2)"
    by simp_all
  show ?thesis
    unfolding select_batches_concat [THEN conjunct2] a b
      select_valid_rows_insert [OF assms] select_valid_rows_stop
    by (simp split: prod.splits)
qed

text \<open>
  A rejected row, wherever it stands in the dataset, changes the outcome of the run only in
  the skipped counter, and not at all if the cap was reached before it.
\<close>

lemma run_evaluation_insert_rejected:
  assumes "row_rejected P r"
  shows "run_evaluation P m mja h t hj tj k w (bs1 @ (pre @ r # post) # bs2) sched
           = map_sum id
               (skip_more (if 0 < k \<and> k \<le> int (length (accepted_pairs P (concat bs1 @ pre)))
                           then 0 else 1))
               (run_evaluation P m mja h t hj tj k w (bs1 @ (pre @ post) # bs2) sched)"
proof -
  let ?xs = "select_batches P k (bs1 @ (pre @ r # post) # bs2) 0"
  let ?ys = "select_batches P k (bs1 @ (pre @ post) # bs2) 0"
  let ?d = "if 0 < k \<and> k \<le> int (length (accepted_pairs P (concat bs1 @ pre))) then 0 else 1 :: int"
  have v: "valid_row P r = None"
    using assms by (simp add: row_rejected_iff)
  have f: "map fst ?xs = map fst ?ys"
    by (rule select_batches_insert [OF v])
  have d: "0 + sum_list (map snd ?xs) - sum_list (map snd ?ys) = ?d"
    unfolding skipped_sum_insert [OF v] by simp
  have s: "seq_steps P a ?xs init_state = map_sum id (skip_more ?d) (seq_steps P a ?ys init_state)"
    for a
    using seq_steps_skip_more [OF f, of P a 0 init_state] unfolding d by simp
  have p: "par_steps P a G mi ?xs sched init_state []
             = map_sum id (skip_more ?d) (par_steps P a G mi ?ys sched init_state [])"
    for a G mi
    using par_steps_skip_more [OF f, of P a G mi sched 0 init_state "[]"] unfolding d by simp
  show ?thesis
    unfolding run_evaluation_def Let_def seq_loop_steps par_loop_steps s p
    by (rule if_distrib [symmetric])
qed

lemma run_evaluation_returns:
  assumes "model_wf m" and "case mja of None \<Rightarrow> True | Some x \<Rightarrow> model_wf x"
  shows "\<exists>st. run_evaluation P m mja h t hj tj k w batches sched = Inr st
            \<and> st_total st = int (length (fst (select_valid_rows P (concat batches) k 0)))
            \<and> st_skipped st = fst (snd (snd (select_valid_rows P (concat batches) k 0)))"
proof -
  let ?a = "single_args m mja h t hj tj"
  let ?V = "fst (select_valid_rows P (concat batches) k 0)"
  let ?S = "fst (snd (snd (select_valid_rows P (concat batches) k 0)))"
  obtain c where c: "tally_rows P ?a m mja ?V = Some c" "p_total c = int (length ?V)"
    using tally_rows_total [OF assms, of P ?a ?V] by blast
  have "map_option (\<lambda>s. (state_tally s, st_skipped s))
          (ok (run_evaluation P m mja h t hj tj k w batches sched)) = Some (c, ?S)"
    unfolding run_evaluation_tally c by simp
  then obtain st where st: "ok (run_evaluation P m mja h t hj tj k w batches sched) = Some st"
    and v: "state_tally st = c" "st_skipped st = ?S"
    by auto
  have r: "run_evaluation P m mja h t hj tj k w batches sched = Inr st"
    using st by (simp add: ok_def split: sum.splits)
  have "st_total st = p_total (state_tally st)"
    by (simp add: state_tally_def)
  then show ?thesis
    using r v c(2) by simp
qed

text \<open>
  Claim C8, for the rows that the filter reads. Let a row be rejected by the filter: its
  label, trimmed and lowercased, is neither \<open>ai\<close> nor \<open>human\<close>, or its normalized text is
  empty. For well-formed models the run without the row returns a state, and wherever the
  row stands in the dataset the run with it returns the same state (every counter, the
  confusion matrix, \<open>total\<close> and \<open>score_sum\<close>) with the skipped counter one higher. The one
  exception is a row that stands after the row at which the cap on the accepted rows is
  reached: it is not read, and the state is the same, the skipped counter included.
\<close>

theorem rejected_row_only_skipped:
  assumes "row_rejected P r"
    and "model_wf m" and "case mja of None \<Rightarrow> True | Some x \<Rightarrow> model_wf x"
  shows "\<exists>st. run_evaluation P m mja h t hj tj k w (bs1 @ (pre @ post) # bs2) sched = Inr st
            \<and> run_evaluation P m mja h t hj tj k w (bs1 @ (pre @ r # post) # bs2) sched
                = Inr (skip_more
                         (if 0 < k \<and> k \<le> int (length (accepted_pairs P (concat bs1 @ pre)))
                          then 0 else 1) st)"
proof -
  obtain st where st: "run_evaluation P m mja h t hj tj k w (bs1 @ (pre @ post) # bs2) sched = Inr st"
    using run_evaluation_returns [OF assms(2,3)] by blast
  show ?thesis
    unfolding run_evaluation_insert_rejected [OF assms(1)] st by simp
qed

lemma row_rejected_bad: "row_rejected ref_platform bad_row"
  by (simp add: row_rejected_iff valid_row_bad)

lemma valid_row_blank: "valid_row ref_platform blank_row = None"
  by (simp add: valid_row_def blank_row_def str_or_empty_def str_strip_def py_isspace_def
      ref_platform_def ascii_lower_def lit_def normalize_text_def str_replace_nbsp_def
      is_hspace_def Let_def)

lemma row_rejected_blank: "row_rejected ref_platform blank_row"
  by (simp add: row_rejected_iff valid_row_blank)

theorem rejected_row_only_skipped_witness:
  "row_rejected ref_platform bad_row
   \<and> row_rejected ref_platform blank_row
   \<and> model_wf steep_model
   \<and> (\<exists>st. run_evaluation ref_platform steep_model None DEFAULT_HUMAN_THRESHOLD
               DEFAULT_AI_THRESHOLD DEFAULT_HUMAN_THRESHOLD DEFAULT_AI_THRESHOLD 0 1
               [[good_row, good_row]] [] = Inr st
           \<and> run_evaluation ref_platform steep_model None DEFAULT_HUMAN_THRESHOLD
               DEFAULT_AI_THRESHOLD DEFAULT_HUMAN_THRESHOLD DEFAULT_AI_THRESHOLD 0 1
               [[good_row, bad_row, good_row]] [] = Inr (skip_more 1 st)
           \<and> processed_rows st = 2
           \<and> skipped_rows st = 0
           \<and> processed_rows (skip_more 1 st) = 2
           \<and> skipped_rows (skip_more 1 st) = 1)
   \<and> (\<exists>st. run_evaluation ref_platform steep_model None DEFAULT_HUMAN_THRESHOLD
               DEFAULT_AI_THRESHOLD DEFAULT_HUMAN_THRESHOLD DEFAULT_AI_THRESHOLD 1 4
               [[good_row, good_row]] [] = Inr st
           \<and> run_evaluation ref_platform steep_model None DEFAULT_HUMAN_THRESHOLD
               DEFAULT_AI_THRESHOLD DEFAULT_HUMAN_THRESHOLD DEFAULT_AI_THRESHOLD 1 4
               [[good_row, bad_row, good_row]] [] = Inr (skip_more 0 st)
           \<and> processed_rows st = 1
           \<and> skipped_rows st = 0)
   \<and> (\<exists>st. run_evaluation ref_platform steep_model None DEFAULT_HUMAN_THRESHOLD
               DEFAULT_AI_THRESHOLD DEFAULT_HUMAN_THRESHOLD DEFAULT_AI_THRESHOLD 0 4
               [[good_row], [good_row]] [] = Inr st
           \<and> run_evaluation ref_platform steep_model None DEFAULT_HUMAN_THRESHOLD
               DEFAULT_AI_THRESHOLD DEFAULT_HUMAN_THRESHOLD DEFAULT_AI_THRESHOLD 0 4
               [[good_row], [blank_row, good_row]] [] = Inr (skip_more 1 st)
           \<and> processed_rows st = 2
           \<and> skipped_rows st = 0)"
proof -
  let ?run = "run_evaluation ref_platform steep_model None DEFAULT_HUMAN_THRESHOLD
                DEFAULT_AI_THRESHOLD DEFAULT_HUMAN_THRESHOLD DEFAULT_AI_THRESHOLD"
  have n: "length (accepted_pairs ref_platform (concat [] @ [good_row])) = 1"
    by (simp add: accepted_pairs_Cons valid_row_good)
  have u: "select_valid_rows ref_platform (concat [[good_row, good_row]]) 0 0
             = ([(''AI'', lit ''a''), (''AI'', lit ''a'')], 2, 0, False)"
    by (simp add: select_valid_rows_Cons valid_row_good)
  have c: "select_valid_rows ref_platform (concat [[good_row, good_row]]) 1 0
             = ([(''AI'', lit ''a'')], 1, 0, True)"
    by (simp add: select_valid_rows_Cons valid_row_good)
  obtain st where st: "?run 0 1 [[good_row, good_row]] [] = Inr st"
    and st': "?run 0 1 [[good_row, bad_row, good_row]] [] = Inr (skip_more 1 st)"
    using rejected_row_only_skipped [OF row_rejected_bad model_wf_steep, of None
        DEFAULT_HUMAN_THRESHOLD DEFAULT_AI_THRESHOLD DEFAULT_HUMAN_THRESHOLD
        DEFAULT_AI_THRESHOLD 0 1 "[]" "[good_row]" "[good_row]" "[]" "[]"]
    by auto
  have a: "processed_rows st = 2" "skipped_rows st = 0"
    using run_evaluation_returns [OF model_wf_steep, of None ref_platform DEFAULT_HUMAN_THRESHOLD
        DEFAULT_AI_THRESHOLD DEFAULT_HUMAN_THRESHOLD DEFAULT_AI_THRESHOLD 0 1
        "[[good_row, good_row]]" "[]"]
    unfolding u st by (simp_all add: processed_rows_def skipped_rows_def)
  have a': "processed_rows (skip_more 1 st) = 2" "skipped_rows (skip_more 1 st) = 1"
    using a by (simp_all add: processed_rows_def skipped_rows_def skip_more_def)
  obtain sc where sc: "?run 1 4 [[good_row, good_row]] [] = Inr sc"
    and sc': "?run 1 4 [[good_row, bad_row, good_row]] [] = Inr (skip_more 0 sc)"
    using rejected_row_only_skipped [OF row_rejected_bad model_wf_steep, of None
        DEFAULT_HUMAN_THRESHOLD DEFAULT_AI_THRESHOLD DEFAULT_HUMAN_THRESHOLD
        DEFAULT_AI_THRESHOLD 1 4 "[]" "[good_row]" "[good_row]" "[]" "[]"]
    unfolding n by (auto simp del: skip_more_zero)
  have b: "processed_rows sc = 1" "skipped_rows sc = 0"
    using run_evaluation_returns [OF model_wf_steep, of None ref_platform DEFAULT_HUMAN_THRESHOLD
        DEFAULT_AI_THRESHOLD DEFAULT_HUMAN_THRESHOLD DEFAULT_AI_THRESHOLD 1 4
        "[[good_row, good_row]]" "[]"]
    unfolding c sc by (simp_all add: processed_rows_def skipped_rows_def)
  obtain sp where sp: "?run 0 4 [[good_row], [good_row]] [] = Inr sp"
    and sp': "?run 0 4 [[good_row], [blank_row, good_row]] [] = Inr (skip_more 1 sp)"
    using rejected_row_only_skipped [OF row_rejected_blank model_wf_steep, of None
        DEFAULT_HUMAN_THRESHOLD DEFAULT_AI_THRESHOLD DEFAULT_HUMAN_THRESHOLD
        DEFAULT_AI_THRESHOLD 0 4 "[[good_row]]" "[]" "[good_row]" "[]" "[]"]
    by auto
  have u2: "select_valid_rows ref_platform (concat [[good_row], [good_row]]) 0 0
             = ([(''AI'', lit ''a''), (''AI'', lit ''a'')], 2, 0, False)"
    by (simp add: select_valid_rows_Cons valid_row_good)
  have p: "processed_rows sp = 2" "skipped_rows sp = 0"
    using run_evaluation_returns [OF model_wf_steep, of None ref_platform DEFAULT_HUMAN_THRESHOLD
        DEFAULT_AI_THRESHOLD DEFAULT_HUMAN_THRESHOLD DEFAULT_AI_THRESHOLD 0 4
        "[[good_row], [good_row]]" "[]"]
    unfolding u2 sp by (simp_all add: processed_rows_def skipped_rows_def)
  show ?thesis
    by (intro conjI exI [of _ st] exI [of _ sc] exI [of _ sp])
      (rule row_rejected_bad row_rejected_blank model_wf_steep st st' a a' sc sc' b sp sp' p)+
qed

text \<open>
  Claim C8 as stated covers every rejected row. With \<open>max_rows = 1\<close> and a batch of a valid
  row followed by a row with the label \<open>maybe\<close>, the cap is reached at the first row and the
  loop leaves the batch: the second row is rejected by the filter's tests, yet the skipped
  counter of the summary is 0, as it is for the batch of the first row alone.
\<close>

theorem rejected_row_after_cap_counterexample:
  "row_rejected ref_platform bad_row
   \<and> map_sum id skipped_rows
       (run_evaluation ref_platform steep_model None DEFAULT_HUMAN_THRESHOLD DEFAULT_AI_THRESHOLD
          DEFAULT_HUMAN_THRESHOLD DEFAULT_AI_THRESHOLD 1 1 [[good_row, bad_row]] [])
     = Inr 0
   \<and> map_sum id processed_rows
       (run_evaluation ref_platform steep_model None DEFAULT_HUMAN_THRESHOLD DEFAULT_AI_THRESHOLD
          DEFAULT_HUMAN_THRESHOLD DEFAULT_AI_THRESHOLD 1 1 [[good_row, bad_row]] [])
     = Inr 1"
proof -
  have c: "select_valid_rows ref_platform (concat [[good_row, bad_row]]) 1 0
             = ([(''AI'', lit ''a'')], 1, 0, True)"
    by (simp add: select_valid_rows_Cons valid_row_good)
  obtain st where st: "run_evaluation ref_platform steep_model None DEFAULT_HUMAN_THRESHOLD
       DEFAULT_AI_THRESHOLD DEFAULT_HUMAN_THRESHOLD DEFAULT_AI_THRESHOLD 1 1
       [[good_row, bad_row]] [] = Inr st"
    and v: "st_total st = 1" "st_skipped st = 0"
    using run_evaluation_returns [OF model_wf_steep, of None ref_platform DEFAULT_HUMAN_THRESHOLD
        DEFAULT_AI_THRESHOLD DEFAULT_HUMAN_THRESHOLD DEFAULT_AI_THRESHOLD 1 1
        "[[good_row, bad_row]]" "[]"]
    unfolding c by auto
  show ?thesis
    unfolding st using v by (simp add: row_rejected_bad processed_rows_def skipped_rows_def)
qed

end
